(* ===== verification/Prelude.thy ===== *)
theory Prelude
  imports Main "HOL-Library.Word"
begin

text \<open>
  What every component shares: Go byte strings, run-time panics as values, buffered Go
  channels, the entries of a log, and the index function that describes a Go map of sets.

  A Go \<open>string\<close> or \<open>[]byte\<close> is a list of bytes, which HOL's \<open>char list\<close> is exactly.
  A panic is a value: an operation that may panic returns \<open>go_panic + 'a\<close>. A buffered
  channel is a record of its queue, its capacity and whether it has been closed.
\<close>

type_synonym bytes = string

text \<open>\<open>frame\<close> collects the equations for what an operation leaves as it was.\<close>

named_theorems frame

section \<open>Panics\<close>

datatype go_panic =
    SendOnClosedChannel
  | CloseOfClosedChannel
  | NonPositiveTicker

type_synonym 'a go = "go_panic + 'a"

text \<open>
  Sequencing of operations that may stop early, with a panic or with a Go \<open>error\<close>: the
  left injection is the early exit.
\<close>

definition go_bind :: "'e + 'a \<Rightarrow> ('a \<Rightarrow> 'e + 'b) \<Rightarrow> 'e + 'b" where
  "go_bind m f = (case m of Inl p \<Rightarrow> Inl p | Inr x \<Rightarrow> f x)"

lemma go_bind_simps [simp]:
  "go_bind (Inl p) f = Inl p"
  "go_bind (Inr x) f = f x"
  by (simp_all add: go_bind_def)

lemma go_bind_eq_Inr: "go_bind m f = Inr y \<longleftrightarrow> (\<exists>x. m = Inr x \<and> f x = Inr y)"
  by (cases m) simp_all

lemma go_bind_eq_Inl: "go_bind m f = Inl e \<longleftrightarrow> m = Inl e \<or> (\<exists>x. m = Inr x \<and> f x = Inl e)"
  by (cases m) simp_all

lemma go_bind_assoc: "go_bind (go_bind m f) g = go_bind m (\<lambda>x. go_bind (f x) g)"
  by (cases m) simp_all

text \<open>A Go \<open>for ... range\<close> over the elements of \<open>xs\<close>, in that order.\<close>

fun go_range :: "('x \<Rightarrow> 's \<Rightarrow> 's go) \<Rightarrow> 'x list \<Rightarrow> 's \<Rightarrow> 's go" where
  "go_range f [] s = Inr s"
| "go_range f (x # xs) s = go_bind (f x s) (go_range f xs)"

text \<open>Total correctness of a step: it does not panic and its result satisfies \<open>P\<close>.\<close>

definition go_ok :: "('a \<Rightarrow> bool) \<Rightarrow> 'a go \<Rightarrow> bool" where
  "go_ok P m = (case m of Inl _ \<Rightarrow> False | Inr x \<Rightarrow> P x)"

lemma go_ok_simps [simp]:
  "go_ok P (Inl p) = False"
  "go_ok P (Inr x) = P x"
  by (simp_all add: go_ok_def)

lemma go_ok_bind: "go_ok P m \<Longrightarrow> (\<And>x. P x \<Longrightarrow> go_ok Q (f x)) \<Longrightarrow> go_ok Q (go_bind m f)"
  by (cases m) simp_all

lemma go_ok_mono: "go_ok P m \<Longrightarrow> (\<And>x. P x \<Longrightarrow> Q x) \<Longrightarrow> go_ok Q m"
  by (cases m) simp_all

lemma go_ok_conj: "go_ok P m \<Longrightarrow> go_ok Q m \<Longrightarrow> go_ok (\<lambda>x. P x \<and> Q x) m"
  by (cases m) simp_all

lemma go_ok_Inr: "go_ok P m \<longleftrightarrow> (\<exists>x. m = Inr x \<and> P x)"
  by (cases m) simp_all

lemma go_range_ok:
  assumes "P s" and "\<And>x s. x \<in> set xs \<Longrightarrow> P s \<Longrightarrow> go_ok P (f x s)"
  shows "go_ok P (go_range f xs s)"
  using assms
proof (induction xs arbitrary: s)
  case Nil
  then show ?case by simp
next
  case (Cons x xs)
  have "go_ok P (f x s)" by (rule Cons.prems(2)) (simp_all add: Cons.prems(1))
  then have "go_ok P (go_bind (f x s) (go_range f xs))"
    by (rule go_ok_bind) (rule Cons.IH, simp_all add: Cons.prems(2))
  then show ?case by simp
qed

text \<open>
  The orders in which Go may visit a map's keys: \<open>ranges xs S\<close> says that \<open>xs\<close> lists the
  finite set \<open>S\<close>, each element once.
\<close>

definition ranges :: "'a list \<Rightarrow> 'a set \<Rightarrow> bool" where
  "ranges xs S \<longleftrightarrow> distinct xs \<and> set xs = S"

lemma ranges_set: "ranges xs S \<Longrightarrow> set xs = S"
  by (simp add: ranges_def)

lemma ranges_distinct: "ranges xs S \<Longrightarrow> distinct xs"
  by (simp add: ranges_def)

lemma ranges_exists: "finite S \<Longrightarrow> \<exists>xs. ranges xs S"
  using finite_distinct_list by (auto simp: ranges_def)

section \<open>Buffered channels\<close>

record 'a gochan =
  buf :: "'a list"
  cap :: nat
  closed :: bool

definition make_chan :: "nat \<Rightarrow> 'a gochan" where
  "make_chan n = \<lparr>buf = [], cap = n, closed = False\<rparr>"

text \<open>
  \<open>select { case ch <- x: ... default: ... }\<close>: the value is queued when the buffer has
  room (the boolean), the default branch is taken when it is full, and sending on a closed
  channel panics.
\<close>

definition try_send :: "'a \<Rightarrow> 'a gochan \<Rightarrow> ('a gochan \<times> bool) go" where
  "try_send x ch =
     (if closed ch then Inl SendOnClosedChannel
      else if length (buf ch) < cap ch then Inr (ch\<lparr>buf := buf ch @ [x]\<rparr>, True)
      else Inr (ch, False))"

definition close_chan :: "'a gochan \<Rightarrow> 'a gochan go" where
  "close_chan ch = (if closed ch then Inl CloseOfClosedChannel else Inr (ch\<lparr>closed := True\<rparr>))"

text \<open>
  A receive \<open>v, ok := <-ch\<close>: a queued value comes first, then \<open>ok = false\<close> once the
  channel is closed and drained; otherwise the receiver waits.
\<close>

datatype 'a recv = Received 'a "'a gochan" | ChannelClosed | WouldBlock

definition recv_chan :: "'a gochan \<Rightarrow> 'a recv" where
  "recv_chan ch =
     (case buf ch of
        x # xs \<Rightarrow> Received x (ch\<lparr>buf := xs\<rparr>)
      | [] \<Rightarrow> (if closed ch then ChannelClosed else WouldBlock))"

definition has_room :: "'a gochan \<Rightarrow> bool" where
  "has_room ch \<longleftrightarrow> \<not> closed ch \<and> length (buf ch) < cap ch"

lemma make_chan_simps [simp]:
  "buf (make_chan n) = []" "cap (make_chan n) = n" "\<not> closed (make_chan n)"
  by (simp_all add: make_chan_def)

lemma try_send_room: "has_room ch \<Longrightarrow> try_send x ch = Inr (ch\<lparr>buf := buf ch @ [x]\<rparr>, True)"
  by (simp add: has_room_def try_send_def)

lemma try_send_full: "\<not> closed ch \<Longrightarrow> \<not> has_room ch \<Longrightarrow> try_send x ch = Inr (ch, False)"
  by (auto simp: has_room_def try_send_def)

lemma try_send_open: "\<not> closed ch \<Longrightarrow> try_send x ch =
    Inr (if has_room ch then (ch\<lparr>buf := buf ch @ [x]\<rparr>, True) else (ch, False))"
  by (auto simp: has_room_def try_send_def)

text \<open>What a non-blocking send on an open channel leaves: the value queued if there is room.\<close>

definition offer :: "'a \<Rightarrow> 'a gochan \<Rightarrow> 'a gochan" where
  "offer x ch = (if has_room ch then ch\<lparr>buf := buf ch @ [x]\<rparr> else ch)"

lemma try_send_offer: "\<not> closed ch \<Longrightarrow> try_send x ch = Inr (offer x ch, has_room ch)"
  by (simp add: try_send_open offer_def)

lemma closed_offer [simp]: "closed (offer x ch) = closed ch"
  by (simp add: offer_def)

lemma cap_offer [simp]: "cap (offer x ch) = cap ch"
  by (simp add: offer_def)

lemma buf_offer: "buf (offer x ch) = (if has_room ch then buf ch @ [x] else buf ch)"
  by (simp add: offer_def)

lemma recv_chan_Received:
  "recv_chan ch = Received x ch' \<longleftrightarrow> (\<exists>xs. buf ch = x # xs \<and> ch' = ch\<lparr>buf := xs\<rparr>)"
  by (auto simp: recv_chan_def split: list.splits)

section \<open>Errors and logging\<close>

text \<open>
  A Go \<open>error\<close> as a value: a plain message, \<open>fmt.Errorf("<what>: %w", cause)\<close>, or
  \<open>fmt.Errorf("<what> %q: %w", arg, cause)\<close> with its argument and the wrapped cause.
\<close>

datatype go_error =
    ErrorString string
  | Prefixed string go_error
  | Wrapped string string go_error

fun error_args :: "go_error \<Rightarrow> string list" where
  "error_args (ErrorString m) = [m]"
| "error_args (Prefixed what cause) = error_args cause"
| "error_args (Wrapped what arg cause) = arg # error_args cause"

datatype log_level = LevelDebug | LevelInfo | LevelWarn | LevelError

text \<open>\<open>slog\<close> levels are integers and compare as such.\<close>

fun level_num :: "log_level \<Rightarrow> int" where
  "level_num LevelDebug = -4"
| "level_num LevelInfo = 0"
| "level_num LevelWarn = 4"
| "level_num LevelError = 8"

instantiation log_level :: linorder
begin

definition less_eq_log_level :: "log_level \<Rightarrow> log_level \<Rightarrow> bool" where
  "l \<le> l' \<longleftrightarrow> level_num l \<le> level_num l'"

definition less_log_level :: "log_level \<Rightarrow> log_level \<Rightarrow> bool" where
  "l < l' \<longleftrightarrow> level_num l < level_num l'"

instance
proof
  show "l = l'" if "l \<le> l'" "l' \<le> l" for l l' :: log_level
    using that by (cases l; cases l') (simp_all add: less_eq_log_level_def)
qed (auto simp: less_eq_log_level_def less_log_level_def)

end

datatype log_val = LString string | LInt int | LError go_error

text \<open>One \<open>slog\<close> record: level, message and its key/value attributes.\<close>

record log_rec =
  lvl :: log_level
  msg :: string
  attrs :: "(string \<times> log_val) list"

definition log_entry :: "log_level \<Rightarrow> string \<Rightarrow> (string \<times> log_val) list \<Rightarrow> log_rec" where
  "log_entry l m kvs = \<lparr>lvl = l, msg = m, attrs = kvs\<rparr>"

text \<open>The strings a record writes out as the values of its attributes.\<close>

fun val_strings :: "log_val \<Rightarrow> string list" where
  "val_strings (LString s) = [s]"
| "val_strings (LInt i) = []"
| "val_strings (LError e) = error_args e"

definition logged_strings :: "log_rec list \<Rightarrow> string set" where
  "logged_strings log = (\<Union>r \<in> set log. \<Union>kv \<in> set (attrs r). set (val_strings (snd kv)))"

lemma log_entry_simps [simp]:
  "lvl (log_entry l m kvs) = l" "msg (log_entry l m kvs) = m" "attrs (log_entry l m kvs) = kvs"
  by (simp_all add: log_entry_def)

lemma logged_strings_simps [simp]:
  "logged_strings [] = {}"
  "logged_strings (xs @ ys) = logged_strings xs \<union> logged_strings ys"
  "logged_strings (r # xs) = (\<Union>kv \<in> set (attrs r). set (val_strings (snd kv))) \<union> logged_strings xs"
  by (auto simp: logged_strings_def)

section \<open>Maps of sets\<close>

text \<open>
  A Go \<open>map[K]map[V]bool\<close> whose empty inner maps are deleted: the entry of a key is
  missing when its set is empty. \<open>idx S\<close> is the entry for the set \<open>S\<close>.
\<close>

definition idx :: "'a set \<Rightarrow> 'a set option" where
  "idx S = (if S = {} then None else Some S)"

definition entry :: "'a set option \<Rightarrow> 'a set" where
  "entry e = (case e of None \<Rightarrow> {} | Some S \<Rightarrow> S)"

lemma entry_simps [simp]: "entry None = {}" "entry (Some S) = S"
  by (simp_all add: entry_def)

lemma entry_idx [simp]: "entry (idx S) = S"
  by (simp add: idx_def)

lemma idx_eq_None [simp]: "idx S = None \<longleftrightarrow> S = {}"
  by (simp add: idx_def)

lemma idx_eq_Some [simp]: "idx S = Some T \<longleftrightarrow> S = T \<and> S \<noteq> {}"
  by (auto simp: idx_def)

lemma idx_insert [simp]: "idx (insert x S) = Some (insert x S)"
  by (simp add: idx_def)

definition drop_member :: "'a \<Rightarrow> 'a set option \<Rightarrow> 'a set option" where
  "drop_member x e = (case e of None \<Rightarrow> None | Some S \<Rightarrow> idx (S - {x}))"

lemma drop_member_simps [simp]:
  "drop_member x None = None"
  "drop_member x (Some S) = idx (S - {x})"
  by (simp_all add: drop_member_def)

lemma drop_member_idx: "drop_member x (idx S) = idx (S - {x})"
  by (auto simp: idx_def drop_member_def)

lemma drop_member_idem [simp]: "drop_member x (drop_member x e) = drop_member x e"
  by (cases e) (auto simp: idx_def drop_member_def)

section \<open>Reachable states\<close>

text \<open>
  A transition system with an invariant: what holds at the start and is kept by every step
  holds in every reachable state.
\<close>

locale invariant_system =
  fixes start :: "'s \<Rightarrow> bool"
    and step :: "'s \<Rightarrow> 's \<Rightarrow> bool"
    and inv :: "'s \<Rightarrow> bool"
  assumes start_inv: "start s \<Longrightarrow> inv s"
    and step_inv: "inv s \<Longrightarrow> step s s' \<Longrightarrow> inv s'"
begin

lemma run_inv: "step^** s s' \<Longrightarrow> inv s \<Longrightarrow> inv s'"
  by (induction rule: rtranclp_induct) (auto intro: step_inv)

lemma reachable_inv: "start s \<Longrightarrow> step^** s s' \<Longrightarrow> inv s'"
  using run_inv start_inv by blast

lemma run_monotone:
  assumes mono: "\<And>s s'. inv s \<Longrightarrow> step s s' \<Longrightarrow> f s \<le> (f s' :: 'a :: preorder)"
    and run: "step^** s s'" and s: "inv s"
  shows "f s \<le> f s'"
  using run s
proof (induction rule: rtranclp_induct)
  case base
  then show ?case by simp
next
  case (step y z)
  then show ?case using mono run_inv order_trans by blast
qed

end

text \<open>
  A transition system that, seen through \<open>abs\<close>, takes steps of another or none: every run of it is
  then a run of the other.
\<close>

locale simulation = invariant_system start step inv
  for start :: "'s \<Rightarrow> bool" and step :: "'s \<Rightarrow> 's \<Rightarrow> bool" and inv :: "'s \<Rightarrow> bool" +
  fixes abs :: "'s \<Rightarrow> 'a"
    and astep :: "'a \<Rightarrow> 'a \<Rightarrow> bool"
  assumes sim: "inv s \<Longrightarrow> step s s' \<Longrightarrow> astep^** (abs s) (abs s')"
begin

lemma sim_run: "step^** s s' \<Longrightarrow> inv s \<Longrightarrow> astep^** (abs s) (abs s')"
proof (induction rule: rtranclp_induct)
  case (step y z)
  then show ?case using run_inv [OF step.hyps(1)] sim by (meson rtranclp_trans)
qed simp

lemma sim_reachable: "start s \<Longrightarrow> step^** s s' \<Longrightarrow> astep^** (abs s) (abs s')"
  by (intro sim_run start_inv)

end

end
