(* ===== verification/GoText.thy ===== *)
theory GoText
  imports Prelude
begin

text \<open>
  The parts of Go's \<open>strconv\<close>, \<open>strings\<close> and \<open>time\<close> that the gateway calls, on byte
  strings: \<open>strconv.FormatInt\<close>, \<open>strconv.ParseInt\<close>/\<open>Atoi\<close>, \<open>strings.Split\<close>,
  \<open>strings.TrimSpace\<close>, \<open>strings.Index\<close>, \<open>strings.ToLower\<close> and \<open>time.ParseDuration\<close>.
\<close>

section \<open>Decimal numbers\<close>

definition is_digit :: "char \<Rightarrow> bool" where
  "is_digit c \<longleftrightarrow> 48 \<le> (of_char c :: nat) \<and> (of_char c :: nat) \<le> 57"

definition digit_val :: "char \<Rightarrow> nat" where
  "digit_val c = of_char c - 48"

definition digit_char :: "nat \<Rightarrow> char" where
  "digit_char d = char_of (48 + d)"

lemma of_char_digit_char: "d < 10 \<Longrightarrow> of_char (digit_char d) = (48 + d :: nat)"
  by (simp add: digit_char_def)

lemma digit_char_digit [simp]: "d < 10 \<Longrightarrow> is_digit (digit_char d)"
  by (simp add: is_digit_def of_char_digit_char)

lemma digit_char_val [simp]: "d < 10 \<Longrightarrow> digit_val (digit_char d) = d"
  by (simp add: digit_val_def of_char_digit_char)

fun dec_nat :: "nat \<Rightarrow> string" where
  "dec_nat n = (if n < 10 then [digit_char n] else dec_nat (n div 10) @ [digit_char (n mod 10)])"

declare dec_nat.simps [simp del]

definition FormatInt :: "int \<Rightarrow> string" where
  "FormatInt i = (if i < 0 then CHR ''-'' # dec_nat (nat (- i)) else dec_nat (nat i))"

definition dec_val :: "string \<Rightarrow> nat" where
  "dec_val = foldl (\<lambda>n c. 10 * n + digit_val c) 0"

lemma dec_nat_digits: "\<forall>c \<in> set (dec_nat n). is_digit c"
proof (induction n rule: dec_nat.induct)
  case (1 n)
  then show ?case by (subst dec_nat.simps) auto
qed

lemma dec_nat_nonempty [simp]: "dec_nat n \<noteq> []"
  by (subst dec_nat.simps) simp

lemma dec_val_dec_nat [simp]: "dec_val (dec_nat n) = n"
proof (induction n rule: dec_nat.induct)
  case (1 n)
  then show ?case by (subst dec_nat.simps) (auto simp: dec_val_def)
qed

lemma minus_not_digit: "\<not> is_digit (CHR ''-'')"
  by (simp add: is_digit_def)

lemma dec_nat_hd_digit: "is_digit (hd (dec_nat n))"
  using dec_nat_digits [of n] by (cases "dec_nat n") auto

lemma inj_dec_nat: "dec_nat m = dec_nat n \<longleftrightarrow> m = n"
  by (metis dec_val_dec_nat)

lemma FormatInt_inj: "FormatInt i = FormatInt j \<longleftrightarrow> i = j"
proof
  assume eq: "FormatInt i = FormatInt j"
  have "i < 0 \<longleftrightarrow> j < 0"
    using eq minus_not_digit dec_nat_hd_digit
    by (auto simp: FormatInt_def split: if_splits) (metis list.sel(1))+
  with eq show "i = j"
    by (auto simp: FormatInt_def inj_dec_nat split: if_splits)
qed simp

text \<open>
  \<open>strconv.ParseUint\<close> of base 10 and 64 bits: the first offending byte decides between a
  syntax and a range error.
\<close>

datatype num_error = ErrSyntax | ErrRange

fun scan_uint :: "nat \<Rightarrow> string \<Rightarrow> num_error + nat" where
  "scan_uint n [] = Inr n"
| "scan_uint n (c # cs) =
     (if \<not> is_digit c then Inl ErrSyntax
      else let n' = 10 * n + digit_val c
           in if 2 ^ 64 \<le> n' then Inl ErrRange else scan_uint n' cs)"

definition ParseUint :: "string \<Rightarrow> num_error + nat" where
  "ParseUint s = (if s = [] then Inl ErrSyntax else scan_uint 0 s)"

definition ParseInt :: "string \<Rightarrow> num_error + int" where
  "ParseInt s =
     (case s of
        [] \<Rightarrow> Inl ErrSyntax
      | c # cs \<Rightarrow>
          let neg = (c = CHR ''-'');
              rest = (if c = CHR ''-'' \<or> c = CHR ''+'' then cs else s)
          in (case ParseUint rest of
                Inl e \<Rightarrow> Inl e
              | Inr un \<Rightarrow>
                  if \<not> neg \<and> 2 ^ 63 \<le> un then Inl ErrRange
                  else if neg \<and> 2 ^ 63 < un then Inl ErrRange
                  else Inr (if neg then - int un else int un)))"

definition int64_range :: "int \<Rightarrow> bool" where
  "int64_range i \<longleftrightarrow> - (2 ^ 63) \<le> i \<and> i < 2 ^ 63"

lemma scan_uint_snoc:
  "scan_uint a xs = Inr m \<Longrightarrow> scan_uint a (xs @ [c]) = scan_uint m [c]"
  by (induction a xs rule: scan_uint.induct) (auto simp: Let_def split: if_splits)

lemma scan_uint_dec_nat: "n < 2 ^ 64 \<Longrightarrow> scan_uint 0 (dec_nat n) = Inr n"
proof (induction n rule: dec_nat.induct)
  case (1 n)
  show ?case
  proof (cases "n < 10")
    case True
    then show ?thesis by (simp add: dec_nat.simps)
  next
    case False
    have "n div 10 < 2 ^ 64" using "1.prems" by linarith
    with 1 False have ih: "scan_uint 0 (dec_nat (n div 10)) = Inr (n div 10)" by simp
    have eq: "10 * (n div 10) + n mod 10 = n" by simp
    have dec: "dec_nat n = dec_nat (n div 10) @ [digit_char (n mod 10)]"
      using False by (simp add: dec_nat.simps [of n])
    show ?thesis
      unfolding dec scan_uint_snoc [OF ih]
      using "1.prems" eq by (simp add: Let_def)
  qed
qed

lemma ParseInt_FormatInt: "int64_range i \<Longrightarrow> ParseInt (FormatInt i) = Inr i"
proof -
  assume r: "int64_range i"
  show ?thesis
  proof (cases "i < 0")
    case True
    have "scan_uint 0 (dec_nat (nat (- i))) = Inr (nat (- i))"
      using r by (intro scan_uint_dec_nat) (simp add: int64_range_def; linarith)
    with True r show ?thesis
      by (simp add: FormatInt_def ParseInt_def ParseUint_def int64_range_def)
  next
    case False
    have s: "scan_uint 0 (dec_nat (nat i)) = Inr (nat i)"
      using r False by (intro scan_uint_dec_nat) (simp add: int64_range_def)
    obtain c cs where cs: "dec_nat (nat i) = c # cs" by (cases "dec_nat (nat i)") auto
    then have "is_digit c" using dec_nat_hd_digit [of "nat i"] by simp
    then have "c \<noteq> CHR ''-''" "c \<noteq> CHR ''+''" by (auto simp: is_digit_def)
    with s cs False r show ?thesis
      by (simp add: FormatInt_def ParseInt_def ParseUint_def int64_range_def)
  qed
qed

lemma ParseInt_range: "ParseInt s = Inr i \<Longrightarrow> int64_range i"
  by (auto simp: ParseInt_def int64_range_def Let_def split: list.splits sum.splits if_splits)

section \<open>Strings\<close>

lemma dropWhile_shorter: "takeWhile P s \<noteq> [] \<Longrightarrow> length (dropWhile P s) < length s"
  by (cases s) (auto simp: le_imp_less_Suc length_dropWhile_le split: if_splits)

text \<open>\<open>strings.Split(s, ",")\<close> for a one-byte separator.\<close>

fun Split :: "char \<Rightarrow> string \<Rightarrow> string list" where
  "Split sep [] = [[]]"
| "Split sep (c # cs) =
     (if c = sep then [] # Split sep cs
      else case Split sep cs of w # ws \<Rightarrow> (c # w) # ws | [] \<Rightarrow> [[c]])"

fun has_prefix :: "string \<Rightarrow> string \<Rightarrow> bool" where
  "has_prefix [] s = True"
| "has_prefix (p # ps) [] = False"
| "has_prefix (p # ps) (c # cs) = (p = c \<and> has_prefix ps cs)"

lemma has_prefix_append: "has_prefix p s \<longleftrightarrow> (\<exists>t. s = p @ t)"
  by (induction p s rule: has_prefix.induct) auto

text \<open>\<open>strings.Index(s, sep)\<close>: the offset of the first occurrence, \<open>None\<close> for -1.\<close>

fun Index :: "string \<Rightarrow> string \<Rightarrow> nat option" where
  "Index sep [] = (if sep = [] then Some 0 else None)"
| "Index sep (c # cs) =
     (if has_prefix sep (c # cs) then Some 0 else map_option Suc (Index sep cs))"

lemma Index_Some: "Index sep s = Some i \<Longrightarrow> has_prefix sep (drop i s)"
  by (induction sep s arbitrary: i rule: Index.induct) (auto split: if_splits)

lemma Index_first: "Index sep s = Some i \<Longrightarrow> j < i \<Longrightarrow> \<not> has_prefix sep (drop j s)"
proof (induction sep s arbitrary: i j rule: Index.induct)
  case (2 sep c cs)
  then show ?case by (cases j) (auto split: if_splits)
qed (auto split: if_splits)

lemma Index_None: "Index sep s = None \<Longrightarrow> \<not> has_prefix sep (drop j s)"
proof (induction sep s arbitrary: j rule: Index.induct)
  case (1 sep)
  then show ?case by (cases sep) (auto split: if_splits)
next
  case (2 sep c cs)
  then show ?case by (cases j) (auto split: if_splits)
qed

text \<open>
  \<open>strings.TrimSpace\<close>: the runes \<open>unicode.IsSpace\<close> accepts, as the UTF-8 bytes they are
  written with. A decoder finds such a rune at the start (end) of a string exactly when the
  string has these bytes as a prefix (suffix).
\<close>

definition space_runes :: "string list" where
  "space_runes =
     [[CHR 0x09], [CHR 0x0A], [CHR 0x0B], [CHR 0x0C], [CHR 0x0D], [CHR 0x20],
      [CHR 0xC2, CHR 0x85], [CHR 0xC2, CHR 0xA0], [CHR 0xE1, CHR 0x9A, CHR 0x80],
      [CHR 0xE2, CHR 0x80, CHR 0x80], [CHR 0xE2, CHR 0x80, CHR 0x81],
      [CHR 0xE2, CHR 0x80, CHR 0x82], [CHR 0xE2, CHR 0x80, CHR 0x83],
      [CHR 0xE2, CHR 0x80, CHR 0x84], [CHR 0xE2, CHR 0x80, CHR 0x85],
      [CHR 0xE2, CHR 0x80, CHR 0x86], [CHR 0xE2, CHR 0x80, CHR 0x87],
      [CHR 0xE2, CHR 0x80, CHR 0x88], [CHR 0xE2, CHR 0x80, CHR 0x89],
      [CHR 0xE2, CHR 0x80, CHR 0x8A], [CHR 0xE2, CHR 0x80, CHR 0xA8],
      [CHR 0xE2, CHR 0x80, CHR 0xA9], [CHR 0xE2, CHR 0x80, CHR 0xAF],
      [CHR 0xE2, CHR 0x81, CHR 0x9F], [CHR 0xE3, CHR 0x80, CHR 0x80]]"

function trim_front :: "string list \<Rightarrow> string \<Rightarrow> string" where
  "trim_front ws s =
     (case find (\<lambda>w. w \<noteq> [] \<and> has_prefix w s) ws of
        None \<Rightarrow> s
      | Some w \<Rightarrow> trim_front ws (drop (length w) s))"
  by pat_completeness auto
termination
proof (relation "measure (\<lambda>(ws, s). length s)")
  fix ws s w
  assume "find (\<lambda>w. w \<noteq> [] \<and> has_prefix w s) ws = Some w"
  then have "w \<noteq> []" "has_prefix w s" by (auto simp: find_Some_iff)
  then show "((ws, drop (length w) s), ws, s) \<in> measure (\<lambda>(ws, s). length s)"
    by (auto simp: has_prefix_append)
qed simp

declare trim_front.simps [simp del]

definition TrimSpace :: "string \<Rightarrow> string" where
  "TrimSpace s = rev (trim_front (map rev space_runes) (rev (trim_front space_runes s)))"

lemma trim_front_done: "w \<in> set ws \<Longrightarrow> w \<noteq> [] \<Longrightarrow> \<not> has_prefix w (trim_front ws s)"
proof (induction ws s rule: trim_front.induct)
  case (1 ws s)
  show ?case
  proof (cases "find (\<lambda>w. w \<noteq> [] \<and> has_prefix w s) ws")
    case None
    then have "\<not> (\<exists>x. x \<in> set ws \<and> x \<noteq> [] \<and> has_prefix x s)" by (simp add: find_None_iff)
    with None "1.prems" show ?thesis by (subst trim_front.simps) auto
  next
    case (Some v)
    with 1 show ?thesis by (simp add: trim_front.simps [of ws s])
  qed
qed

text \<open>A string with no space rune at either end.\<close>

definition trimmed :: "string \<Rightarrow> bool" where
  "trimmed s \<longleftrightarrow>
     (\<forall>w \<in> set space_runes. \<not> has_prefix w s \<and> \<not> has_prefix (rev w) (rev s))"

lemma trim_front_suffix: "\<exists>p. s = p @ trim_front ws s"
proof (induction ws s rule: trim_front.induct)
  case (1 ws s)
  show ?case
  proof (cases "find (\<lambda>w. w \<noteq> [] \<and> has_prefix w s) ws")
    case None
    then show ?thesis by (simp add: trim_front.simps [of ws s])
  next
    case (Some v)
    from 1 [OF Some] obtain p where "drop (length v) s = p @ trim_front ws (drop (length v) s)"
      by blast
    then have "s = (take (length v) s @ p) @ trim_front ws (drop (length v) s)"
      by (metis append.assoc append_take_drop_id)
    then have "\<exists>q. s = q @ trim_front ws (drop (length v) s)" by blast
    with Some show ?thesis by (simp add: trim_front.simps [of ws s])
  qed
qed

lemma space_runes_nonempty: "w \<in> set space_runes \<Longrightarrow> w \<noteq> []"
  by (auto simp: space_runes_def)

lemma trimmed_TrimSpace: "trimmed (TrimSpace s)"
  unfolding trimmed_def
proof (intro ballI conjI)
  fix w assume w: "w \<in> set space_runes"
  let ?t = "trim_front space_runes s"
  let ?u = "trim_front (map rev space_runes) (rev ?t)"
  obtain p where "rev ?t = p @ ?u" using trim_front_suffix by blast
  then have "?t = rev ?u @ rev p" by (metis rev_append rev_rev_ident)
  moreover have "\<not> has_prefix w ?t"
    by (rule trim_front_done [OF w space_runes_nonempty [OF w]])
  ultimately show "\<not> has_prefix w (TrimSpace s)"
    by (auto simp: TrimSpace_def has_prefix_append)
  have "\<not> has_prefix (rev w) ?u"
    by (rule trim_front_done) (use w space_runes_nonempty in auto)
  then show "\<not> has_prefix (rev w) (rev (TrimSpace s))" by (simp add: TrimSpace_def)
qed

text \<open>
  \<open>strings.ToLower\<close>, as far as comparing the result with an ASCII word can tell: ASCII
  capitals are lowered, and so are the two other runes whose lower case is an ASCII letter,
  U+0130 (bytes C4 B0) and the Kelvin sign U+212A (bytes E2 84 AA). Every other rune keeps
  its bytes here; in Go its lower case is not ASCII either.
\<close>

definition lower_char :: "char \<Rightarrow> char" where
  "lower_char c = (if 65 \<le> (of_char c :: nat) \<and> (of_char c :: nat) \<le> 90
     then char_of (of_char c + 32 :: nat) else c)"

function ToLower :: "string \<Rightarrow> string" where
  "ToLower s =
     (case s of
        [] \<Rightarrow> []
      | c # cs \<Rightarrow>
          if has_prefix [CHR 0xC4, CHR 0xB0] s then CHR ''i'' # ToLower (drop 2 s)
          else if has_prefix [CHR 0xE2, CHR 0x84, CHR 0xAA] s then CHR ''k'' # ToLower (drop 3 s)
          else lower_char c # ToLower cs)"
  by pat_completeness auto
termination
  by (relation "measure length") auto

declare ToLower.simps [simp del]

end
