(* ===== verification/GoTime.thy ===== *)
theory GoTime
  imports GoText
begin

text \<open>
  Go's \<open>time.Duration\<close> (a signed 64-bit number of nanoseconds, here an \<open>int\<close>) and
  \<open>time.ParseDuration\<close>, with the binary64 arithmetic it uses for decimal fractions.
\<close>

definition Second :: int where "Second = 1000000000"
definition Minute :: int where "Minute = 60 * Second"
definition Hour :: int where "Hour = 60 * Minute"

section \<open>Binary64 on non-negative rationals\<close>

text \<open>
  A non-negative rational is a pair (numerator, denominator). \<open>float64\<close> rounds it to the
  nearest number with a 53-bit significand, ties to even. The values here lie between
  \<open>10 ^ -18\<close> and \<open>2 ^ 64\<close>, far from the exponent range's ends.
\<close>

fun bitlen :: "nat \<Rightarrow> nat" where
  "bitlen n = (if n = 0 then 0 else Suc (bitlen (n div 2)))"

declare bitlen.simps [simp del]

definition round_half_even :: "nat \<Rightarrow> nat \<Rightarrow> nat" where
  "round_half_even p q =
     (let d = p div q; r = p mod q
      in if 2 * r < q \<or> 2 * r = q \<and> even d then d else d + 1)"

text \<open>\<open>scale2 (p, q) e\<close> is \<open>p / q * 2 ^ (-e)\<close>.\<close>

definition scale2 :: "nat \<times> nat \<Rightarrow> int \<Rightarrow> nat \<times> nat" where
  "scale2 r e = (if 0 \<le> e then (fst r, snd r * 2 ^ nat e) else (fst r * 2 ^ nat (- e), snd r))"

definition float64 :: "nat \<times> nat \<Rightarrow> nat \<times> nat" where
  "float64 r =
     (if fst r = 0 then (0, 1)
      else let e0 = int (bitlen (fst r)) - int (bitlen (snd r)) - 53;
               s0 = scale2 r e0;
               e = (if 2 ^ 53 * snd s0 \<le> fst s0 then e0 + 1 else e0);
               s = scale2 r e
           in scale2 (round_half_even (fst s) (snd s), 1) (- e))"

definition float_mul :: "nat \<times> nat \<Rightarrow> nat \<times> nat \<Rightarrow> nat \<times> nat" where
  "float_mul a b = float64 (fst a * fst b, snd a * snd b)"

text \<open>\<open>uint64(float64(f) * (float64(unit) / scale))\<close>, where \<open>scale\<close> is a power of ten.\<close>

definition frac_part :: "nat \<Rightarrow> nat \<Rightarrow> nat \<Rightarrow> nat" where
  "frac_part f unit scale =
     (let x = float_mul (float64 (f, 1)) (float64 (unit, scale)) in fst x div snd x)"

section \<open>ParseDuration\<close>

datatype dur_error = ErrDurInvalid | ErrDurMissingUnit | ErrDurUnknownUnit

fun leadingInt :: "nat \<Rightarrow> string \<Rightarrow> (nat \<times> string) option" where
  "leadingInt x [] = Some (x, [])"
| "leadingInt x (c # cs) =
     (if \<not> is_digit c then Some (x, c # cs)
      else if 2 ^ 63 div 10 < x then None
      else let x' = 10 * x + digit_val c
           in if 2 ^ 63 < x' then None else leadingInt x' cs)"

fun leadingFraction :: "nat \<Rightarrow> nat \<Rightarrow> bool \<Rightarrow> string \<Rightarrow> nat \<times> nat \<times> string" where
  "leadingFraction x scale ovf [] = (x, scale, [])"
| "leadingFraction x scale ovf (c # cs) =
     (if \<not> is_digit c then (x, scale, c # cs)
      else if ovf then leadingFraction x scale ovf cs
      else if (2 ^ 63 - 1) div 10 < x then leadingFraction x scale True cs
      else let y = 10 * x + digit_val c
           in if 2 ^ 63 < y then leadingFraction x scale True cs
              else leadingFraction y (scale * 10) ovf cs)"

lemma leadingInt_length: "leadingInt x s = Some (v, t) \<Longrightarrow> length t \<le> length s"
  by (induction x s rule: leadingInt.induct) (auto simp: Let_def split: if_splits)

lemma leadingFraction_length: "leadingFraction x sc ovf s = (v, sc', t) \<Longrightarrow> length t \<le> length s"
proof (induction x sc ovf s rule: leadingFraction.induct)
  case (2 x sc ovf c cs)
  show ?case
  proof (cases "is_digit c")
    case False
    with "2.prems" show ?thesis by simp
  next
    case True
    from True "2.prems" have "length t \<le> length cs"
      by (simp add: Let_def 2 split: if_splits)
    then show ?thesis by simp
  qed
qed simp

definition unitMap :: "string \<Rightarrow> nat option" where
  "unitMap u = map_of
     [(''ns'', 1), (''us'', 1000), ([CHR 0xC2, CHR 0xB5, CHR ''s''], 1000),
      ([CHR 0xCE, CHR 0xBC, CHR ''s''], 1000), (''ms'', 1000000), (''s'', 1000000000),
      (''m'', 60000000000), (''h'', 3600000000000)] u"

definition unit_char :: "char \<Rightarrow> bool" where
  "unit_char c \<longleftrightarrow> c \<noteq> CHR ''.'' \<and> \<not> is_digit c"

text \<open>The digits before and after the point: integer part, fraction, its scale, the rest.\<close>

definition dur_number :: "string \<Rightarrow> (nat \<times> nat \<times> nat \<times> string) option" where
  "dur_number s =
     (case leadingInt 0 s of
        None \<Rightarrow> None
      | Some (v, s1) \<Rightarrow>
          let pre = length s1 \<noteq> length s
          in (case s1 of
                CHR ''.'' # t \<Rightarrow>
                  (case leadingFraction 0 1 False t of
                     (f, scale, t') \<Rightarrow>
                       if \<not> pre \<and> length t' = length t then None else Some (v, f, scale, t'))
              | _ \<Rightarrow> if \<not> pre then None else Some (v, 0, 1, s1)))"

text \<open>One number with its unit: its nanoseconds and the rest of the text.\<close>

definition dur_component :: "string \<Rightarrow> dur_error + nat \<times> string" where
  "dur_component s =
     (case dur_number s of
        None \<Rightarrow> Inl ErrDurInvalid
      | Some (v, f, scale, s2) \<Rightarrow>
          let u = takeWhile unit_char s2; s3 = dropWhile unit_char s2
          in if u = [] then Inl ErrDurMissingUnit
             else case unitMap u of
                    None \<Rightarrow> Inl ErrDurUnknownUnit
                  | Some unit \<Rightarrow>
                      if 2 ^ 63 div unit < v then Inl ErrDurInvalid
                      else if f = 0 then Inr (v * unit, s3)
                      else let v' = v * unit + frac_part f unit scale
                           in if 2 ^ 63 < v' then Inl ErrDurInvalid else Inr (v', s3))"

lemma dur_number_length: "dur_number s = Some (v, f, sc, t) \<Longrightarrow> length t \<le> length s"
  by (auto simp: dur_number_def Let_def
      split: option.splits list.splits char.splits bool.splits prod.splits if_splits
      dest!: leadingInt_length leadingFraction_length)

lemma dur_component_length: "dur_component s = Inr (v, t) \<Longrightarrow> length t < length s"
  by (auto simp: dur_component_def Let_def
      split: option.splits prod.splits if_splits
      dest!: dur_number_length dest: dropWhile_shorter [of unit_char] order_less_le_trans)

text \<open>The loop over the components; \<open>d += v\<close> is on 64-bit unsigned integers.\<close>

function dur_loop :: "nat \<Rightarrow> string \<Rightarrow> dur_error + nat" where
  "dur_loop d s =
     (case s of
        [] \<Rightarrow> Inr d
      | c # _ \<Rightarrow>
          if \<not> (c = CHR ''.'' \<or> is_digit c) then Inl ErrDurInvalid
          else case dur_component s of
                 Inl e \<Rightarrow> Inl e
               | Inr (v, t) \<Rightarrow>
                   let d' = (d + v) mod 2 ^ 64
                   in if 2 ^ 63 < d' then Inl ErrDurInvalid else dur_loop d' t)"
  by pat_completeness auto
termination
  by (relation "measure (\<lambda>(d, s). length s)") (auto dest: dur_component_length)

declare dur_loop.simps [simp del]

definition ParseDuration :: "string \<Rightarrow> dur_error + int" where
  "ParseDuration orig =
     (let neg = (take 1 orig = ''-'');
          s = (case orig of c # t \<Rightarrow> if c = CHR ''-'' \<or> c = CHR ''+'' then t else orig | [] \<Rightarrow> [])
      in if s = ''0'' then Inr 0
         else if s = [] then Inl ErrDurInvalid
         else case dur_loop 0 s of
                Inl e \<Rightarrow> Inl e
              | Inr d \<Rightarrow>
                  if neg then Inr (- int d)
                  else if 2 ^ 63 - 1 < d then Inl ErrDurInvalid
                  else Inr (int d))"

lemma dur_loop_bound: "dur_loop d s = Inr r \<Longrightarrow> d \<le> 2 ^ 63 \<Longrightarrow> r \<le> 2 ^ 63"
proof (induction d s rule: dur_loop.induct)
  case (1 d s)
  show ?case
  proof (cases s)
    case Nil
    with "1.prems" show ?thesis by (simp add: dur_loop.simps)
  next
    case (Cons c cs)
    with "1.prems"(1) obtain v t where d:
      "c = CHR ''.'' \<or> is_digit c" "dur_component s = Inr (v, t)"
      "\<not> 2 ^ 63 < (d + v) mod 2 ^ 64" "dur_loop ((d + v) mod 2 ^ 64) t = Inr r"
      by (subst (asm) dur_loop.simps)
         (auto simp: Let_def split: if_splits sum.splits prod.splits)
    with "1.IH" [OF Cons] show ?thesis by simp
  qed
qed

lemma ParseDuration_range: "ParseDuration s = Inr d \<Longrightarrow> int64_range d"
  by (auto simp: ParseDuration_def int64_range_def Let_def
      split: list.splits sum.splits if_splits dest!: dur_loop_bound)

end
