(* ===== verification/Config.thy ===== *)
theory Config
  imports GoTime
begin

text \<open>
  \<open>gateway/config.go\<close>: the \<open>Config\<close> struct and \<open>Load\<close>, which reads it from the process
  environment. The environment is a function \<open>env\<close> from names to values, the empty string
  for an unset variable, as \<open>os.Getenv\<close> returns it. Errors are values of \<open>load_error\<close>
  with what the Go error text is made of: the variable's name, its raw value, the cause.
\<close>

section \<open>The Config struct\<close>

record config =
  ListenAddr :: string
  RedisURL :: string
  DjangoAuthURL :: string
  InternalAuthSecret :: string
  AllowedOrigins :: "string list"
  MaxConnectionsPerUser :: int
  MaxConnectionsTotal :: int
  MaxMessageSize :: int
  ConnectionMaxLifetime :: int
  PingInterval :: int
  PongTimeout :: int
  LogLevel :: log_level
  AuthTimeout :: int

type_synonym environment = "string \<Rightarrow> string"

datatype load_error =
    Required string
  | ErrShortSecret
  | InvalidInteger string string num_error
  | InvalidDuration string string dur_error
  | UnknownLogLevel string string

definition minSecretLength :: nat where
  "minSecretLength = 32"

section \<open>Parsing one variable\<close>

definition envOrDefault :: "environment \<Rightarrow> string \<Rightarrow> string \<Rightarrow> string" where
  "envOrDefault env key fallback = (if env key \<noteq> [] then env key else fallback)"

text \<open>
  The \<open>parse...Into\<close> helpers write through a pointer; here they return the new value of
  the destination. \<open>strconv.Atoi\<close> is \<open>ParseInt\<close> with 64 bits, the width of Go's \<open>int\<close>
  on the released platforms.
\<close>

definition parseIntInto :: "environment \<Rightarrow> string \<Rightarrow> int \<Rightarrow> load_error + int" where
  "parseIntInto env name dest =
     (let raw = env name
      in if raw = [] then Inr dest
         else case ParseInt raw of
                Inl e \<Rightarrow> Inl (InvalidInteger name raw e)
              | Inr v \<Rightarrow> Inr v)"

definition parseInt64Into :: "environment \<Rightarrow> string \<Rightarrow> int \<Rightarrow> load_error + int" where
  "parseInt64Into env name dest =
     (let raw = env name
      in if raw = [] then Inr dest
         else case ParseInt raw of
                Inl e \<Rightarrow> Inl (InvalidInteger name raw e)
              | Inr v \<Rightarrow> Inr v)"

definition parseDurationInto :: "environment \<Rightarrow> string \<Rightarrow> int \<Rightarrow> load_error + int" where
  "parseDurationInto env name dest =
     (let raw = env name
      in if raw = [] then Inr dest
         else case ParseDuration raw of
                Inl e \<Rightarrow> Inl (InvalidDuration name raw e)
              | Inr v \<Rightarrow> Inr v)"

definition parseLogLevelInto ::
  "environment \<Rightarrow> string \<Rightarrow> log_level \<Rightarrow> load_error + log_level" where
  "parseLogLevelInto env name dest =
     (let raw = env name; low = ToLower raw
      in if raw = [] then Inr dest
         else if low = ''debug'' then Inr LevelDebug
         else if low = ''info'' then Inr LevelInfo
         else if low = ''warn'' \<or> low = ''warning'' then Inr LevelWarn
         else if low = ''error'' then Inr LevelError
         else Inl (UnknownLogLevel name raw))"

section \<open>Load\<close>

definition default_config :: "environment \<Rightarrow> config" where
  "default_config env =
     \<lparr>ListenAddr = envOrDefault env ''LISTEN_ADDR'' '':8080'',
      RedisURL = env ''REDIS_URL'',
      DjangoAuthURL = env ''DJANGO_AUTH_URL'',
      InternalAuthSecret = env ''INTERNAL_AUTH_SECRET'',
      AllowedOrigins = [],
      MaxConnectionsPerUser = 10,
      MaxConnectionsTotal = 50000,
      MaxMessageSize = 8192,
      ConnectionMaxLifetime = 12 * Hour,
      PingInterval = 30 * Second,
      PongTimeout = 60 * Second,
      LogLevel = LevelInfo,
      AuthTimeout = 5 * Second\<rparr>"

fun check_required :: "(string \<times> string) list \<Rightarrow> load_error + unit" where
  "check_required [] = Inr ()"
| "check_required ((name, val) # kvs) = (if val = [] then Inl (Required name) else check_required kvs)"

definition parse_origins :: "string \<Rightarrow> string list" where
  "parse_origins raw = filter (\<lambda>t. t \<noteq> []) (map TrimSpace (Split (CHR '','') raw))"

text \<open>The eight optional variables, in the order \<open>Load\<close> parses them.\<close>

definition load_optional :: "environment \<Rightarrow> config \<Rightarrow> load_error + config" where
  "load_optional env cfg =
     go_bind (parseIntInto env ''MAX_CONNECTIONS_PER_USER'' (MaxConnectionsPerUser cfg)) (\<lambda>pu.
     go_bind (parseIntInto env ''MAX_CONNECTIONS_TOTAL'' (MaxConnectionsTotal cfg)) (\<lambda>tot.
     go_bind (parseInt64Into env ''MAX_MESSAGE_SIZE'' (MaxMessageSize cfg)) (\<lambda>size.
     go_bind (parseDurationInto env ''CONNECTION_MAX_LIFETIME'' (ConnectionMaxLifetime cfg)) (\<lambda>life.
     go_bind (parseDurationInto env ''PING_INTERVAL'' (PingInterval cfg)) (\<lambda>ping.
     go_bind (parseDurationInto env ''PONG_TIMEOUT'' (PongTimeout cfg)) (\<lambda>pong.
     go_bind (parseDurationInto env ''AUTH_TIMEOUT'' (AuthTimeout cfg)) (\<lambda>auth.
     go_bind (parseLogLevelInto env ''LOG_LEVEL'' (LogLevel cfg)) (\<lambda>level.
       Inr (cfg\<lparr>MaxConnectionsPerUser := pu, MaxConnectionsTotal := tot, MaxMessageSize := size,
                ConnectionMaxLifetime := life, PingInterval := ping, PongTimeout := pong,
                AuthTimeout := auth, LogLevel := level\<rparr>)))))))))"

definition Load :: "environment \<Rightarrow> load_error + config" where
  "Load env =
     (let cfg = default_config env
      in go_bind (check_required [(''REDIS_URL'', RedisURL cfg),
                                  (''DJANGO_AUTH_URL'', DjangoAuthURL cfg),
                                  (''INTERNAL_AUTH_SECRET'', InternalAuthSecret cfg)]) (\<lambda>_.
         if length (InternalAuthSecret cfg) < minSecretLength then Inl ErrShortSecret
         else let originsRaw = env ''ALLOWED_ORIGINS''
              in if originsRaw = [] then Inl (Required ''ALLOWED_ORIGINS'')
                 else let cfg' = cfg\<lparr>AllowedOrigins := AllowedOrigins cfg @ parse_origins originsRaw\<rparr>
                      in if AllowedOrigins cfg' = [] then Inl (Required ''ALLOWED_ORIGINS'')
                         else load_optional env cfg'))"

section \<open>What a loaded configuration satisfies\<close>

definition config_ok :: "config \<Rightarrow> bool" where
  "config_ok cfg \<longleftrightarrow>
     RedisURL cfg \<noteq> [] \<and> DjangoAuthURL cfg \<noteq> [] \<and>
     minSecretLength \<le> length (InternalAuthSecret cfg) \<and>
     AllowedOrigins cfg \<noteq> [] \<and> (\<forall>w \<in> set (AllowedOrigins cfg). w \<noteq> [] \<and> trimmed w) \<and>
     (\<forall>i \<in> {MaxConnectionsPerUser cfg, MaxConnectionsTotal cfg, MaxMessageSize cfg,
             ConnectionMaxLifetime cfg, PingInterval cfg, PongTimeout cfg, AuthTimeout cfg}.
        int64_range i)"

lemma parseIntInto_range:
  "parseIntInto env n d = Inr v \<Longrightarrow> int64_range d \<Longrightarrow> int64_range v"
  by (auto simp: parseIntInto_def Let_def ParseInt_range split: if_splits sum.splits)

lemma parseInt64Into_range:
  "parseInt64Into env n d = Inr v \<Longrightarrow> int64_range d \<Longrightarrow> int64_range v"
  by (auto simp: parseInt64Into_def Let_def ParseInt_range split: if_splits sum.splits)

lemma parseDurationInto_range:
  "parseDurationInto env n d = Inr v \<Longrightarrow> int64_range d \<Longrightarrow> int64_range v"
  by (auto simp: parseDurationInto_def Let_def ParseDuration_range split: if_splits sum.splits)

lemma parse_origins_trimmed: "w \<in> set (parse_origins raw) \<Longrightarrow> w \<noteq> [] \<and> trimmed w"
  by (auto simp: parse_origins_def trimmed_TrimSpace)

lemma parse_origins_Nil [simp]: "parse_origins [] = []"
  by (simp add: parse_origins_def TrimSpace_def trim_front.simps space_runes_def)

lemma load_optional_Inr:
  assumes "load_optional env cfg = Inr cfg'"
  obtains pu tot sz life ping pong auth level where
    "parseIntInto env ''MAX_CONNECTIONS_PER_USER'' (MaxConnectionsPerUser cfg) = Inr pu"
    "parseIntInto env ''MAX_CONNECTIONS_TOTAL'' (MaxConnectionsTotal cfg) = Inr tot"
    "parseInt64Into env ''MAX_MESSAGE_SIZE'' (MaxMessageSize cfg) = Inr sz"
    "parseDurationInto env ''CONNECTION_MAX_LIFETIME'' (ConnectionMaxLifetime cfg) = Inr life"
    "parseDurationInto env ''PING_INTERVAL'' (PingInterval cfg) = Inr ping"
    "parseDurationInto env ''PONG_TIMEOUT'' (PongTimeout cfg) = Inr pong"
    "parseDurationInto env ''AUTH_TIMEOUT'' (AuthTimeout cfg) = Inr auth"
    "cfg' = cfg\<lparr>MaxConnectionsPerUser := pu, MaxConnectionsTotal := tot, MaxMessageSize := sz,
        ConnectionMaxLifetime := life, PingInterval := ping, PongTimeout := pong,
        AuthTimeout := auth, LogLevel := level\<rparr>"
  using assms unfolding load_optional_def go_bind_eq_Inr by blast

lemma load_optional_ok:
  assumes opt: "load_optional env cfg = Inr cfg'" and ok: "config_ok cfg"
  shows "config_ok cfg'"
proof -
  obtain pu tot sz life ping pong auth level where
    p: "parseIntInto env ''MAX_CONNECTIONS_PER_USER'' (MaxConnectionsPerUser cfg) = Inr pu"
      "parseIntInto env ''MAX_CONNECTIONS_TOTAL'' (MaxConnectionsTotal cfg) = Inr tot"
      "parseInt64Into env ''MAX_MESSAGE_SIZE'' (MaxMessageSize cfg) = Inr sz"
      "parseDurationInto env ''CONNECTION_MAX_LIFETIME'' (ConnectionMaxLifetime cfg) = Inr life"
      "parseDurationInto env ''PING_INTERVAL'' (PingInterval cfg) = Inr ping"
      "parseDurationInto env ''PONG_TIMEOUT'' (PongTimeout cfg) = Inr pong"
      "parseDurationInto env ''AUTH_TIMEOUT'' (AuthTimeout cfg) = Inr auth"
    and cfg': "cfg' = cfg\<lparr>MaxConnectionsPerUser := pu, MaxConnectionsTotal := tot,
        MaxMessageSize := sz, ConnectionMaxLifetime := life, PingInterval := ping,
        PongTimeout := pong, AuthTimeout := auth, LogLevel := level\<rparr>"
    by (rule load_optional_Inr [OF opt])
  have "\<forall>i \<in> {pu, tot, sz, life, ping, pong, auth}. int64_range i"
    using p ok [unfolded config_ok_def]
      parseIntInto_range [OF p(1)] parseIntInto_range [OF p(2)] parseInt64Into_range [OF p(3)]
      parseDurationInto_range [OF p(4)] parseDurationInto_range [OF p(5)]
      parseDurationInto_range [OF p(6)] parseDurationInto_range [OF p(7)]
    by simp
  with ok show ?thesis by (simp add: config_ok_def cfg')
qed

lemma parse_not_required:
  "e \<in> {Required k, ErrShortSecret} \<Longrightarrow> parseIntInto env n d \<noteq> Inl e"
  "e \<in> {Required k, ErrShortSecret} \<Longrightarrow> parseInt64Into env n d \<noteq> Inl e"
  "e \<in> {Required k, ErrShortSecret} \<Longrightarrow> parseDurationInto env n d \<noteq> Inl e"
  "e \<in> {Required k, ErrShortSecret} \<Longrightarrow> parseLogLevelInto env n lv \<noteq> Inl e"
  by (auto simp: parseIntInto_def parseInt64Into_def parseDurationInto_def
      parseLogLevelInto_def Let_def split: sum.split)

lemma load_optional_not_required:
  "load_optional env cfg \<noteq> Inl (Required k)"
  "load_optional env cfg \<noteq> Inl ErrShortSecret"
  by (simp_all add: load_optional_def go_bind_eq_Inl parse_not_required)

text \<open>A change of the secret does not change how any other variable is parsed.\<close>

lemma parse_other_variable:
  "n \<noteq> v \<Longrightarrow> parseIntInto (env(v := s)) n d = parseIntInto env n d"
  "n \<noteq> v \<Longrightarrow> parseInt64Into (env(v := s)) n d = parseInt64Into env n d"
  "n \<noteq> v \<Longrightarrow> parseDurationInto (env(v := s)) n d = parseDurationInto env n d"
  "n \<noteq> v \<Longrightarrow> parseLogLevelInto (env(v := s)) n lv = parseLogLevelInto env n lv"
  by (simp_all add: parseIntInto_def parseInt64Into_def parseDurationInto_def
      parseLogLevelInto_def)

lemma map_sum_go_bind: "map_sum id h (go_bind m f) = go_bind m (\<lambda>x. map_sum id h (f x))"
  by (cases m) simp_all

lemma load_optional_secret:
  "load_optional (env(''INTERNAL_AUTH_SECRET'' := s)) (cfg\<lparr>InternalAuthSecret := t\<rparr>) =
   map_sum id (\<lambda>c. c\<lparr>InternalAuthSecret := t\<rparr>) (load_optional env cfg)"
  by (cases cfg) (simp add: load_optional_def parse_other_variable map_sum_go_bind)

text \<open>\<open>Load\<close> as one chain of checks over the environment.\<close>

lemma Load_checks:
  "Load env =
     (if env ''REDIS_URL'' = [] then Inl (Required ''REDIS_URL'')
      else if env ''DJANGO_AUTH_URL'' = [] then Inl (Required ''DJANGO_AUTH_URL'')
      else if env ''INTERNAL_AUTH_SECRET'' = [] then Inl (Required ''INTERNAL_AUTH_SECRET'')
      else if length (env ''INTERNAL_AUTH_SECRET'') < minSecretLength then Inl ErrShortSecret
      else if parse_origins (env ''ALLOWED_ORIGINS'') = [] then Inl (Required ''ALLOWED_ORIGINS'')
      else load_optional env
             ((default_config env)\<lparr>AllowedOrigins := parse_origins (env ''ALLOWED_ORIGINS'')\<rparr>))"
  by (simp add: Load_def default_config_def Let_def)

section \<open>Properties of Load\<close>

text \<open>
  C33: every configuration \<open>Load\<close> returns has a Redis URL, an auth URL, a secret of at
  least 32 bytes and at least one allowed origin, none of them empty or with space around
  it, and every number and duration fits 64 signed bits.
\<close>

theorem Load_ok:
  assumes "Load env = Inr cfg"
  shows "config_ok cfg"
proof -
  let ?d = "default_config env"
  let ?c = "?d\<lparr>AllowedOrigins := AllowedOrigins ?d @ parse_origins (env ''ALLOWED_ORIGINS'')\<rparr>"
  from assms have opt: "load_optional env ?c = Inr cfg"
    and req: "RedisURL ?d \<noteq> []" "DjangoAuthURL ?d \<noteq> []"
      "minSecretLength \<le> length (InternalAuthSecret ?d)" "AllowedOrigins ?c \<noteq> []"
    by (auto simp: Load_def Let_def go_bind_eq_Inr split: if_splits)
  have "config_ok ?c"
    using req
    by (auto simp: config_ok_def default_config_def int64_range_def Hour_def Minute_def Second_def
        dest: parse_origins_trimmed)
  with opt show ?thesis by (rule load_optional_ok)
qed

definition sample_env :: environment where
  "sample_env = (\<lambda>_. [])
     (''REDIS_URL'' := ''redis://localhost:6379/0'',
      ''DJANGO_AUTH_URL'' := ''http://django:8000/internal/ws-auth/'',
      ''INTERNAL_AUTH_SECRET'' := ''this-is-a-valid-thirty-two-character-secret'',
      ''ALLOWED_ORIGINS'' := ''https://a.example, https://b.example'')"

definition sample_config :: config where
  "sample_config =
     \<lparr>ListenAddr = '':8080'', RedisURL = ''redis://localhost:6379/0'',
      DjangoAuthURL = ''http://django:8000/internal/ws-auth/'',
      InternalAuthSecret = ''this-is-a-valid-thirty-two-character-secret'',
      AllowedOrigins = [''https://a.example'', ''https://b.example''],
      MaxConnectionsPerUser = 10, MaxConnectionsTotal = 50000, MaxMessageSize = 8192,
      ConnectionMaxLifetime = 12 * Hour, PingInterval = 30 * Second, PongTimeout = 60 * Second,
      LogLevel = LevelInfo, AuthTimeout = 5 * Second\<rparr>"

lemma parse_origins_sample:
  "parse_origins ''https://a.example, https://b.example'' =
   [''https://a.example'', ''https://b.example'']"
proof -
  have "map TrimSpace (Split (CHR '','') ''https://a.example, https://b.example'') =
    [''https://a.example'', ''https://b.example'']"
    by (simp add: TrimSpace_def) (simp add: trim_front.simps space_runes_def)
  then show ?thesis by (simp add: parse_origins_def del: Split.simps)
qed

lemma load_optional_unset:
  assumes "\<forall>n \<in> {''MAX_CONNECTIONS_PER_USER'', ''MAX_CONNECTIONS_TOTAL'', ''MAX_MESSAGE_SIZE'',
      ''CONNECTION_MAX_LIFETIME'', ''PING_INTERVAL'', ''PONG_TIMEOUT'', ''AUTH_TIMEOUT'',
      ''LOG_LEVEL''}. env n = []"
  shows "load_optional env cfg = Inr cfg"
  using assms
  by (simp add: load_optional_def parseIntInto_def parseInt64Into_def parseDurationInto_def
      parseLogLevelInto_def)

lemma Load_sample: "Load sample_env = Inr sample_config"
proof -
  have "Load sample_env = load_optional sample_env (sample_config)"
    by (simp add: Load_def default_config_def envOrDefault_def minSecretLength_def sample_env_def
        parse_origins_sample sample_config_def)
  also have "\<dots> = Inr sample_config"
    by (rule load_optional_unset) (simp add: sample_env_def)
  finally show ?thesis .
qed

theorem Load_ok_witness: "config_ok sample_config"
  by (rule Load_ok [OF Load_sample])

text \<open>
  C0: \<open>Load\<close> reports a variable as required exactly when it is the first unset one of
  \<open>REDIS_URL\<close>, \<open>DJANGO_AUTH_URL\<close> and \<open>INTERNAL_AUTH_SECRET\<close>, or, these being set and the
  secret long enough, when \<open>ALLOWED_ORIGINS\<close> names no origin; and it reports a short
  secret exactly when the three are set and the secret has fewer than 32 bytes.
\<close>

theorem Load_missing:
  "(Load env = Inl (Required k) \<longleftrightarrow>
      (case filter (\<lambda>n. env n = []) [''REDIS_URL'', ''DJANGO_AUTH_URL'', ''INTERNAL_AUTH_SECRET''] of
         n # _ \<Rightarrow> k = n
       | [] \<Rightarrow> minSecretLength \<le> length (env ''INTERNAL_AUTH_SECRET'') \<and>
               parse_origins (env ''ALLOWED_ORIGINS'') = [] \<and> k = ''ALLOWED_ORIGINS'')) \<and>
   (Load env = Inl ErrShortSecret \<longleftrightarrow>
      env ''REDIS_URL'' \<noteq> [] \<and> env ''DJANGO_AUTH_URL'' \<noteq> [] \<and>
      env ''INTERNAL_AUTH_SECRET'' \<noteq> [] \<and>
      length (env ''INTERNAL_AUTH_SECRET'') < minSecretLength)"
  by (auto simp: Load_checks load_optional_not_required)

text \<open>
  C34: the outcome of \<open>Load\<close> tells nothing of the secret but whether it is set and long
  enough: with another secret of the same kind the error is the same, and a loaded
  configuration differs in the secret's field only.
\<close>

theorem Load_secret_opaque:
  assumes "s \<noteq> [] \<longleftrightarrow> t \<noteq> []" and "length s < minSecretLength \<longleftrightarrow> length t < minSecretLength"
  shows "Load (env(''INTERNAL_AUTH_SECRET'' := t)) =
    map_sum id (\<lambda>cfg. cfg\<lparr>InternalAuthSecret := t\<rparr>) (Load (env(''INTERNAL_AUTH_SECRET'' := s)))"
proof -
  let ?S = "''INTERNAL_AUTH_SECRET''"
  let ?c = "\<lambda>x. default_config (env(?S := x))"
  let ?o = "parse_origins (env ''ALLOWED_ORIGINS'')"
  have "load_optional (env(?S := t)) (c\<lparr>InternalAuthSecret := t\<rparr>) =
      map_sum id (\<lambda>c. c\<lparr>InternalAuthSecret := t\<rparr>) (load_optional (env(?S := s)) c)" for c
    using load_optional_secret [of "env(?S := s)" t t c] by simp
  from this [of "(?c s)\<lparr>AllowedOrigins := ?o\<rparr>"]
  have "load_optional (env(?S := t)) ((?c t)\<lparr>AllowedOrigins := ?o\<rparr>) =
      map_sum id (\<lambda>c. c\<lparr>InternalAuthSecret := t\<rparr>)
        (load_optional (env(?S := s)) ((?c s)\<lparr>AllowedOrigins := ?o\<rparr>))"
    by (cases "env ''LISTEN_ADDR'' = []") (simp_all add: default_config_def envOrDefault_def)
  with assms show ?thesis by (simp add: Load_checks)
qed

theorem Load_secret_opaque_witness:
  "Load (sample_env(''INTERNAL_AUTH_SECRET'' := replicate 40 (CHR ''x''))) =
    map_sum id (\<lambda>cfg. cfg\<lparr>InternalAuthSecret := replicate 40 (CHR ''x'')\<rparr>)
      (Load (sample_env(''INTERNAL_AUTH_SECRET'' := replicate 32 (CHR ''y''))))"
  by (rule Load_secret_opaque) (simp_all add: minSecretLength_def)

text \<open>
  With only the required variables set, \<open>Load\<close> succeeds with the documented defaults.
\<close>

theorem Load_defaults:
  assumes "\<forall>n. n \<notin> {''REDIS_URL'', ''DJANGO_AUTH_URL'', ''INTERNAL_AUTH_SECRET'', ''ALLOWED_ORIGINS''} \<longrightarrow>
      env n = []"
    and "env ''REDIS_URL'' \<noteq> []" and "env ''DJANGO_AUTH_URL'' \<noteq> []"
    and "32 \<le> length (env ''INTERNAL_AUTH_SECRET'')"
    and "parse_origins (env ''ALLOWED_ORIGINS'') \<noteq> []"
  shows "Load env = Inr
     \<lparr>ListenAddr = '':8080'', RedisURL = env ''REDIS_URL'',
      DjangoAuthURL = env ''DJANGO_AUTH_URL'', InternalAuthSecret = env ''INTERNAL_AUTH_SECRET'',
      AllowedOrigins = parse_origins (env ''ALLOWED_ORIGINS''),
      MaxConnectionsPerUser = 10, MaxConnectionsTotal = 50000, MaxMessageSize = 8192,
      ConnectionMaxLifetime = 12 * Hour, PingInterval = 30 * Second, PongTimeout = 60 * Second,
      LogLevel = LevelInfo, AuthTimeout = 5 * Second\<rparr>"
proof -
  have [simp]: "env ''ALLOWED_ORIGINS'' \<noteq> []" using assms(5) by auto
  have [simp]: "env ''INTERNAL_AUTH_SECRET'' \<noteq> []" using assms(4) by auto
  have "load_optional env cfg = Inr cfg" for cfg
    by (rule load_optional_unset) (simp add: assms(1))
  moreover have "env ''LISTEN_ADDR'' = []" by (simp add: assms(1))
  ultimately show ?thesis
    using assms(2-)
    by (simp add: Load_def default_config_def envOrDefault_def minSecretLength_def)
qed

theorem Load_defaults_witness: "Load sample_env = Inr sample_config"
proof -
  have "Load sample_env = Inr
     \<lparr>ListenAddr = '':8080'', RedisURL = sample_env ''REDIS_URL'',
      DjangoAuthURL = sample_env ''DJANGO_AUTH_URL'',
      InternalAuthSecret = sample_env ''INTERNAL_AUTH_SECRET'',
      AllowedOrigins = parse_origins (sample_env ''ALLOWED_ORIGINS''),
      MaxConnectionsPerUser = 10, MaxConnectionsTotal = 50000, MaxMessageSize = 8192,
      ConnectionMaxLifetime = 12 * Hour, PingInterval = 30 * Second, PongTimeout = 60 * Second,
      LogLevel = LevelInfo, AuthTimeout = 5 * Second\<rparr>"
    by (rule Load_defaults) (simp_all add: sample_env_def parse_origins_sample)
  then show ?thesis by (simp add: sample_config_def sample_env_def parse_origins_sample)
qed

end
