(* ===== verification/Manager.thy ===== *)
theory Manager
  imports Prelude
begin

text \<open>
  The interface \<open>channelManager\<close> of \<open>gateway/hub.go\<close>: what the hub calls to have messages
  of a channel delivered to this process. The record holds the two methods as functions of
  the manager's state; an operation returns the new state and Go's \<open>error\<close> (\<open>None\<close> is nil).

  The locale is the contract the hub relies on. \<open>held m\<close> is the set of channels the
  manager counts a reference for, \<open>ok\<close> its invariant, \<open>faulty\<close> whether a call has failed so far. The hub never subscribes to a
  channel that is held, which the laws may assume.
\<close>

record 'm channelManager =
  Subscribe :: "string \<Rightarrow> 'm \<Rightarrow> 'm \<times> go_error option"
  Unsubscribe :: "string \<Rightarrow> 'm \<Rightarrow> 'm \<times> go_error option"

locale channel_manager =
  fixes M :: "'m channelManager"
    and held :: "'m \<Rightarrow> string set"
    and ok :: "'m \<Rightarrow> bool"
    and faulty :: "'m \<Rightarrow> bool"
  assumes subscribe_done:
      "ok m \<Longrightarrow> ch \<notin> held m \<Longrightarrow> Subscribe M ch m = (m', None) \<Longrightarrow> held m' = insert ch (held m)"
    and subscribe_failed:
      "ok m \<Longrightarrow> ch \<notin> held m \<Longrightarrow> Subscribe M ch m = (m', Some e) \<Longrightarrow> held m' = held m"
    and subscribe_keeps_ok:
      "ok m \<Longrightarrow> ch \<notin> held m \<Longrightarrow> ok (fst (Subscribe M ch m))"
    and subscribe_faulty:
      "Subscribe M ch m = (m', Some e) \<Longrightarrow> faulty m'"
    and faulty_subscribe: "faulty m \<Longrightarrow> faulty (fst (Subscribe M ch m))"
    and faulty_unsubscribe: "faulty m \<Longrightarrow> faulty (fst (Unsubscribe M ch m))"
    and unsubscribe_drops:
      "ok m \<Longrightarrow> held (fst (Unsubscribe M ch m)) = held m - {ch}"
    and unsubscribe_keeps_ok:
      "ok m \<Longrightarrow> ok (fst (Unsubscribe M ch m))"
begin

text \<open>A subscription followed by an unsubscription of the same channel is undone.\<close>

lemma subscribe_unsubscribe:
  assumes "ok m" and "ch \<notin> held m"
  shows "held (fst (Unsubscribe M ch (fst (Subscribe M ch m)))) = held m"
proof -
  obtain m' r where s: "Subscribe M ch m = (m', r)" by (cases "Subscribe M ch m")
  have "ok m'" using subscribe_keeps_ok [OF assms] s by simp
  moreover have "held m' - {ch} = held m"
    using subscribe_done [OF assms] subscribe_failed [OF assms] s assms(2) by (cases r) auto
  ultimately show ?thesis by (simp add: s unsubscribe_drops)
qed

lemma subscribe_held:
  assumes "ok m" and "ch \<notin> held m"
  shows "held (fst (Subscribe M ch m)) =
    (if snd (Subscribe M ch m) = None then insert ch (held m) else held m)"
  using subscribe_done [OF assms] subscribe_failed [OF assms]
  by (cases "Subscribe M ch m") (auto split: option.splits)

end

end
