(* ===== verification/RedisSub.thy ===== *)
theory RedisSub
  imports Manager
begin

text \<open>
  \<open>gateway/redis.go\<close>: \<open>RedisSubscriber\<close>, which counts the logical subscribers of each
  channel and asks Redis to SUBSCRIBE on the first and to UNSUBSCRIBE on the last.

  The go-redis client is not part of the repository. It appears as the commands issued to
  it: the state keeps the history of commands with their outcomes, and the parameter \<open>net\<close>
  gives the outcome of a command after any history (\<open>None\<close> for success). Every method runs
  under the subscriber's mutex, so each is one step of the state.
\<close>

section \<open>State\<close>

record incomingMessage =
  Channel :: string
  Payload :: bytes

datatype redis_cmd =
    SUBSCRIBE string
  | UNSUBSCRIBE string
  | PING
  | ClosePubSub
  | CloseClient

type_synonym redis_history = "(redis_cmd \<times> go_error option) list"
type_synonym redis_net = "redis_history \<Rightarrow> redis_cmd \<Rightarrow> go_error option"

text \<open>\<open>'h\<close> is the type of the deliver callback; \<open>read_loops\<close> counts spawned read loops.\<close>

record 'h redisSubscriber =
  deliver :: "'h option"
  activeChans :: "string \<rightharpoonup> int"
  rs_closed :: bool
  started :: bool
  read_loops :: nat
  issued :: redis_history

section \<open>Operations\<close>

definition issue :: "redis_net \<Rightarrow> redis_cmd \<Rightarrow> 'h redisSubscriber \<Rightarrow>
    'h redisSubscriber \<times> go_error option" where
  "issue net c r = (let e = net (issued r) c in (r\<lparr>issued := issued r @ [(c, e)]\<rparr>, e))"

definition rs_SetDeliver :: "'h option \<Rightarrow> 'h redisSubscriber \<Rightarrow> 'h redisSubscriber" where
  "rs_SetDeliver d r = r\<lparr>deliver := d\<rparr>"

definition rs_Start :: "'h redisSubscriber \<Rightarrow> 'h redisSubscriber" where
  "rs_Start r =
     (if started r then r
      else r\<lparr>started := True, read_loops := Suc (read_loops r)\<rparr>)"

text \<open>\<open>parseURL\<close> stands for \<open>redis.ParseURL\<close> of go-redis: an error, or nil.\<close>

definition NewRedisSubscriber ::
  "(string \<Rightarrow> go_error option) \<Rightarrow> string \<Rightarrow> 'h option \<Rightarrow> go_error + 'h redisSubscriber" where
  "NewRedisSubscriber parseURL redisURL d =
     (case parseURL redisURL of
        Some e \<Rightarrow> Inl (Prefixed ''parse REDIS_URL'' e)
      | None \<Rightarrow>
          let r = \<lparr>deliver = d, activeChans = Map.empty, rs_closed = False, started = False,
                   read_loops = 0, issued = []\<rparr>
          in Inr (if d \<noteq> None then rs_Start r else r))"

definition refcount :: "'h redisSubscriber \<Rightarrow> string \<Rightarrow> int" where
  "refcount r ch = (case activeChans r ch of None \<Rightarrow> 0 | Some n \<Rightarrow> n)"

definition rs_Subscribe :: "redis_net \<Rightarrow> string \<Rightarrow> 'h redisSubscriber \<Rightarrow>
    'h redisSubscriber \<times> go_error option" where
  "rs_Subscribe net ch r =
     (if rs_closed r then (r, Some (ErrorString ''redis subscriber closed''))
      else let r1 = r\<lparr>activeChans := (activeChans r)(ch \<mapsto> refcount r ch + 1)\<rparr>
           in if refcount r1 ch = 1
              then (case issue net (SUBSCRIBE ch) r1 of
                      (r2, None) \<Rightarrow> (r2, None)
                    | (r2, Some e) \<Rightarrow>
                        (r2\<lparr>activeChans := (activeChans r2)(ch \<mapsto> refcount r2 ch - 1)\<rparr>,
                         Some (Wrapped ''redis subscribe'' ch e)))
              else (r1, None))"

definition rs_Unsubscribe :: "redis_net \<Rightarrow> string \<Rightarrow> 'h redisSubscriber \<Rightarrow>
    'h redisSubscriber \<times> go_error option" where
  "rs_Unsubscribe net ch r =
     (if rs_closed r then (r, None)
      else case activeChans r ch of
             None \<Rightarrow> (r, None)
           | Some n \<Rightarrow>
               let r1 = r\<lparr>activeChans := (activeChans r)(ch \<mapsto> n - 1)\<rparr>
               in if 0 < refcount r1 ch then (r1, None)
                  else let r2 = r1\<lparr>activeChans := (activeChans r1)(ch := None)\<rparr>
                       in (case issue net (UNSUBSCRIBE ch) r2 of
                             (r3, None) \<Rightarrow> (r3, None)
                           | (r3, Some e) \<Rightarrow> (r3, Some (Wrapped ''redis unsubscribe'' ch e))))"

definition rs_Ping :: "redis_net \<Rightarrow> 'h redisSubscriber \<Rightarrow> 'h redisSubscriber \<times> go_error option" where
  "rs_Ping net r = issue net PING r"

definition rs_Close :: "redis_net \<Rightarrow> 'h redisSubscriber \<Rightarrow> 'h redisSubscriber \<times> go_error option" where
  "rs_Close net r =
     (if rs_closed r then (r, None)
      else let r1 = r\<lparr>rs_closed := True\<rparr>;
               r2 = fst (issue net ClosePubSub r1)
           in issue net CloseClient r2)"

text \<open>
  One turn of \<open>readLoop\<close>: the callback to call and the message to hand it, or nothing when
  no callback is attached. \<open>readLoop\<close> is the loop over the messages the pub/sub connection
  yields before it is closed, each with the state in which the loop takes the mutex, since
  \<open>SetDeliver\<close> may run between two messages.
\<close>

definition read_turn :: "'h redisSubscriber \<Rightarrow> string \<times> bytes \<Rightarrow> ('h \<times> incomingMessage) option" where
  "read_turn r m =
     map_option (\<lambda>d. (d, \<lparr>Channel = fst m, Payload = snd m\<rparr>)) (deliver r)"

fun readLoop :: "('h redisSubscriber \<times> string \<times> bytes) list \<Rightarrow> ('h \<times> incomingMessage) list" where
  "readLoop [] = []"
| "readLoop ((r, m) # ms) =
     (case read_turn r m of None \<Rightarrow> readLoop ms | Some c \<Rightarrow> c # readLoop ms)"

section \<open>What Redis has been told\<close>

text \<open>
  The channels a Redis server delivers to this connection: each command that succeeded is
  applied, a failed one changes nothing.
\<close>

fun apply_cmd :: "string set \<Rightarrow> redis_cmd \<times> go_error option \<Rightarrow> string set" where
  "apply_cmd S (SUBSCRIBE ch, None) = insert ch S"
| "apply_cmd S (UNSUBSCRIBE ch, None) = S - {ch}"
| "apply_cmd S (ClosePubSub, None) = {}"
| "apply_cmd S _ = S"

definition live :: "redis_history \<Rightarrow> string set" where
  "live h = foldl apply_cmd {} h"

text \<open>The channels this process has ever asked Redis for, whatever the outcome.\<close>

definition asked_for :: "redis_history \<Rightarrow> string set" where
  "asked_for h = {ch. SUBSCRIBE ch \<in> fst ` set h}"

lemma asked_for_simps [simp]:
  "asked_for [] = {}"
  "asked_for (h @ g) = asked_for h \<union> asked_for g"
  "asked_for ((c, e) # h) = (case c of SUBSCRIBE ch \<Rightarrow> {ch} | _ \<Rightarrow> {}) \<union> asked_for h"
  by (auto simp: asked_for_def split: redis_cmd.split)

lemma apply_cmd_asked: "apply_cmd S (c, e) \<subseteq> S \<union> asked_for [(c, e)]"
  by (cases c; cases e) auto

lemma live_asked: "live h \<subseteq> asked_for h"
  by (induction h rule: rev_induct) (use apply_cmd_asked in \<open>fastforce simp: live_def\<close>)+

definition fault_free :: "redis_history \<Rightarrow> bool" where
  "fault_free h \<longleftrightarrow> (\<forall>c \<in> set h. snd c = None)"

lemma live_simps [simp]:
  "live [] = {}"
  "live (h @ c # g) = foldl apply_cmd (apply_cmd (live h) c) g"
  by (simp_all add: live_def)

lemma fault_free_simps [simp]:
  "fault_free []"
  "fault_free (c # h) \<longleftrightarrow> snd c = None \<and> fault_free h"
  "fault_free (h @ g) \<longleftrightarrow> fault_free h \<and> fault_free g"
  by (auto simp: fault_free_def)

text \<open>The channels with a positive reference count, none once the subscriber is closed.\<close>

definition rs_held :: "'h redisSubscriber \<Rightarrow> string set" where
  "rs_held r = (if rs_closed r then {} else {ch. 0 < refcount r ch})"

definition times_issued :: "redis_cmd \<Rightarrow> redis_history \<Rightarrow> nat" where
  "times_issued c h = count_list (map fst h) c"

text \<open>
  The subscriber's invariant: no count is negative, a referenced channel is live in Redis;
  and without faults every entry is positive, no other channel is live, and each channel's
  SUBSCRIBE and UNSUBSCRIBE commands alternate.
\<close>

definition rs_inv :: "'h redisSubscriber \<Rightarrow> bool" where
  "rs_inv r \<longleftrightarrow>
     (\<forall>ch n. activeChans r ch = Some n \<longrightarrow> 0 \<le> n) \<and>
     rs_held r \<subseteq> live (issued r) \<and>
     (fault_free (issued r) \<longrightarrow>
        (\<forall>ch n. activeChans r ch = Some n \<longrightarrow> 0 < n) \<and>
        rs_held r = live (issued r) \<and>
        (\<forall>ch. times_issued (SUBSCRIBE ch) (issued r) =
               times_issued (UNSUBSCRIBE ch) (issued r) + (if 0 < refcount r ch then 1 else 0)))"

lemma refcount_nonneg: "rs_inv r \<Longrightarrow> 0 \<le> refcount r ch"
  by (auto simp: rs_inv_def refcount_def split: option.splits)

lemma refcount_upd [simp]:
  "refcount (r\<lparr>activeChans := (activeChans r')(ch \<mapsto> n)\<rparr>) c =
     (if c = ch then n else refcount r' c)"
  "refcount (r\<lparr>activeChans := (activeChans r')(ch := None)\<rparr>) c =
     (if c = ch then 0 else refcount r' c)"
  "refcount (r\<lparr>issued := h\<rparr>) c = refcount r c"
  "refcount (r\<lparr>rs_closed := b\<rparr>) c = refcount r c"
  "refcount (r\<lparr>started := b\<rparr>) c = refcount r c"
  "refcount (r\<lparr>started := b, read_loops := k\<rparr>) c = refcount r c"
  "refcount (r\<lparr>deliver := d\<rparr>) c = refcount r c"
  by (simp_all add: refcount_def)

lemma rs_Subscribe_refcount:
  "\<not> rs_closed r \<Longrightarrow> rs_Subscribe net ch r = (r', None) \<Longrightarrow>
     refcount r' c = (if c = ch then refcount r ch + 1 else refcount r c)"
  "\<not> rs_closed r \<Longrightarrow> rs_Subscribe net ch r = (r', Some e) \<Longrightarrow> refcount r' c = refcount r c"
  by (auto simp: rs_Subscribe_def issue_def Let_def split: if_splits option.splits prod.splits)

lemma rs_Unsubscribe_refcount:
  "rs_inv r \<Longrightarrow> \<not> rs_closed r \<Longrightarrow>
     refcount (fst (rs_Unsubscribe net ch r)) c =
       (if c = ch then max 0 (refcount r ch - 1) else refcount r c)"
  by (auto simp: rs_Unsubscribe_def issue_def Let_def rs_inv_def
      split: if_splits option.splits prod.splits)
     (auto simp: refcount_def split: option.splits)

lemma times_issued_simps [simp]:
  "times_issued c [] = 0"
  "times_issued c (d # h) = (if fst d = c then 1 else 0) + times_issued c h"
  "times_issued c (h @ g) = times_issued c h + times_issued c g"
  by (simp_all add: times_issued_def)

lemma rs_inv_Subscribe: "rs_inv r \<Longrightarrow> rs_inv (fst (rs_Subscribe net ch r))"
proof (cases "rs_closed r")
  case True
  moreover assume "rs_inv r"
  ultimately show ?thesis by (simp add: rs_Subscribe_def)
next
  case open_: False
  assume inv: "rs_inv r"
  show ?thesis
  proof (cases "refcount r ch = 0")
    case False
    with inv open_ have "0 < refcount r ch" using refcount_nonneg [OF inv, of ch] by simp
    with inv open_ show ?thesis
      by (auto simp: rs_Subscribe_def rs_inv_def rs_held_def)
  next
    case True
    with inv open_ show ?thesis
      by (cases "net (issued r) (SUBSCRIBE ch)")
         (auto simp: rs_Subscribe_def issue_def Let_def rs_inv_def rs_held_def)
  qed
qed

lemma rs_inv_Unsubscribe: "rs_inv r \<Longrightarrow> rs_inv (fst (rs_Unsubscribe net ch r))"
proof (cases "rs_closed r")
  case True
  moreover assume "rs_inv r"
  ultimately show ?thesis by (simp add: rs_Unsubscribe_def)
next
  case open_: False
  assume inv: "rs_inv r"
  show ?thesis
  proof (cases "activeChans r ch")
    case None
    with inv open_ show ?thesis by (simp add: rs_Unsubscribe_def)
  next
    case (Some n)
    then have n: "refcount r ch = n" by (simp add: refcount_def)
    show ?thesis
    proof (cases "1 < n")
      case True
      then have "ch \<in> live (issued r)" using n inv open_ by (auto simp: rs_inv_def rs_held_def)
      with inv open_ Some n True show ?thesis
        by (auto simp: rs_Unsubscribe_def rs_inv_def rs_held_def)
    next
      case False
      with inv open_ Some n show ?thesis
        by (cases "net (issued r) (UNSUBSCRIBE ch)")
           (auto simp: rs_Unsubscribe_def issue_def Let_def rs_inv_def rs_held_def)
    qed
  qed
qed

lemma rs_inv_Ping: "rs_inv r \<Longrightarrow> rs_inv (fst (rs_Ping net r))"
  by (cases "net (issued r) PING") (auto simp: rs_Ping_def issue_def Let_def rs_inv_def rs_held_def)

lemma rs_inv_Close: "rs_inv r \<Longrightarrow> rs_inv (fst (rs_Close net r))"
  by (cases "net (issued r) ClosePubSub")
     (auto simp: rs_Close_def issue_def Let_def rs_inv_def rs_held_def)

lemma rs_inv_Start: "rs_inv r \<Longrightarrow> rs_inv (rs_Start r)"
  by (auto simp: rs_Start_def rs_inv_def rs_held_def)

lemma rs_inv_SetDeliver: "rs_inv r \<Longrightarrow> rs_inv (rs_SetDeliver d r)"
  by (auto simp: rs_SetDeliver_def rs_inv_def rs_held_def)

section \<open>Runs of the public methods\<close>

datatype 'h rs_op =
    DoSubscribe string
  | DoUnsubscribe string
  | DoPing
  | DoClose
  | DoStart
  | DoSetDeliver "'h option"

fun rs_step :: "redis_net \<Rightarrow> 'h rs_op \<Rightarrow> 'h redisSubscriber \<Rightarrow> 'h redisSubscriber" where
  "rs_step net (DoSubscribe ch) r = fst (rs_Subscribe net ch r)"
| "rs_step net (DoUnsubscribe ch) r = fst (rs_Unsubscribe net ch r)"
| "rs_step net DoPing r = fst (rs_Ping net r)"
| "rs_step net DoClose r = fst (rs_Close net r)"
| "rs_step net DoStart r = rs_Start r"
| "rs_step net (DoSetDeliver d) r = rs_SetDeliver d r"

definition rs_run :: "redis_net \<Rightarrow> 'h rs_op list \<Rightarrow> 'h redisSubscriber \<Rightarrow> 'h redisSubscriber" where
  "rs_run net ops r = fold (rs_step net) ops r"

lemma rs_run_simps [simp]:
  "rs_run net [] r = r"
  "rs_run net (op # ops) r = rs_run net ops (rs_step net op r)"
  by (simp_all add: rs_run_def)

lemma rs_inv_step: "rs_inv r \<Longrightarrow> rs_inv (rs_step net op r)"
  by (cases op) (simp_all add: rs_inv_Subscribe rs_inv_Unsubscribe rs_inv_Ping rs_inv_Close
      rs_inv_Start rs_inv_SetDeliver)

lemma rs_inv_run: "rs_inv r \<Longrightarrow> rs_inv (rs_run net ops r)"
  by (induction ops arbitrary: r) (simp_all add: rs_inv_step)

lemma rs_inv_new: "NewRedisSubscriber parseURL url d = Inr r \<Longrightarrow> rs_inv r"
  by (auto simp: NewRedisSubscriber_def Let_def rs_Start_def rs_inv_def rs_held_def refcount_def
      split: option.splits if_splits)

text \<open>
  The documented contract: a bag of references, to which \<open>Subscribe\<close> adds one and from which
  \<open>Unsubscribe\<close> takes one away.
\<close>

fun spec_step :: "'h rs_op \<Rightarrow> (string \<Rightarrow> nat) \<Rightarrow> (string \<Rightarrow> nat)" where
  "spec_step (DoSubscribe ch) f = f(ch := f ch + 1)"
| "spec_step (DoUnsubscribe ch) f = f(ch := f ch - 1)"
| "spec_step _ f = f"

definition spec_refs :: "'h rs_op list \<Rightarrow> string \<Rightarrow> nat" where
  "spec_refs ops = fold spec_step ops (\<lambda>_. 0)"

definition rs_refs :: "'h redisSubscriber \<Rightarrow> string \<Rightarrow> nat" where
  "rs_refs r ch = nat (refcount r ch)"

definition no_faults :: redis_net where
  "no_faults = (\<lambda>h c. None)"

lemma issue_no_faults: "issue no_faults c r = (r\<lparr>issued := issued r @ [(c, None)]\<rparr>, None)"
  by (simp add: issue_def no_faults_def)

lemma rs_Subscribe_no_faults: "\<not> rs_closed r \<Longrightarrow> snd (rs_Subscribe no_faults ch r) = None"
  by (simp add: rs_Subscribe_def issue_no_faults Let_def)

lemma rs_step_closed: "op \<noteq> DoClose \<Longrightarrow> rs_closed (rs_step net op r) = rs_closed r"
  by (cases op) (auto simp: rs_Subscribe_def rs_Unsubscribe_def rs_Ping_def rs_Start_def
      rs_SetDeliver_def issue_def Let_def split: option.splits prod.splits)

lemma rs_step_fault_free:
  "fault_free (issued r) \<Longrightarrow> fault_free (issued (rs_step no_faults op r))"
  by (cases op) (auto simp: rs_Subscribe_def rs_Unsubscribe_def rs_Ping_def rs_Start_def
      rs_SetDeliver_def rs_Close_def issue_def no_faults_def Let_def split: option.splits prod.splits)

lemma rs_step_refs:
  assumes "rs_inv r" and "\<not> rs_closed r" and "op \<noteq> DoClose"
  shows "rs_refs (rs_step no_faults op r) = spec_step op (rs_refs r)"
proof (cases op)
  case (DoSubscribe ch)
  obtain r' where s: "rs_Subscribe no_faults ch r = (r', None)"
    using rs_Subscribe_no_faults [OF assms(2), of ch] by (cases "rs_Subscribe no_faults ch r") simp
  show ?thesis
    using rs_Subscribe_refcount(1) [OF assms(2) s] refcount_nonneg [OF assms(1)]
    by (auto simp: DoSubscribe s rs_refs_def nat_add_distrib)
next
  case (DoUnsubscribe ch)
  then show ?thesis
    using rs_Unsubscribe_refcount [OF assms(1,2)] refcount_nonneg [OF assms(1)]
    by (auto simp: rs_refs_def max_def nat_diff_distrib)
qed (use assms(3) in \<open>auto simp: rs_refs_def rs_Ping_def rs_Start_def rs_SetDeliver_def issue_def Let_def\<close>)

lemma rs_run_refs:
  assumes "rs_inv r" and "\<not> rs_closed r" and "fault_free (issued r)" and "DoClose \<notin> set ops"
  shows "rs_refs (rs_run no_faults ops r) = fold spec_step ops (rs_refs r) \<and>
    \<not> rs_closed (rs_run no_faults ops r) \<and> fault_free (issued (rs_run no_faults ops r))"
  using assms
proof (induction ops arbitrary: r)
  case (Cons op ops)
  then have op: "op \<noteq> DoClose" by auto
  with Cons show ?case
    by (simp add: rs_inv_step rs_step_closed rs_step_fault_free rs_step_refs)
qed simp

section \<open>Properties of the subscriber\<close>

text \<open>
  Whatever Redis answers and in whatever order the methods are called, a channel with a
  positive reference count is one that Redis delivers to this process; if no command failed,
  these are the only channels it delivers, and SUBSCRIBE was issued for a channel exactly as
  often as UNSUBSCRIBE, once more while it is referenced.
\<close>

theorem rs_run_live:
  assumes "NewRedisSubscriber parseURL url d = Inr r0" and "r = rs_run net ops r0"
  shows "rs_held r \<subseteq> live (issued r) \<and>
    (fault_free (issued r) \<longrightarrow> rs_held r = live (issued r) \<and>
      (\<forall>ch. times_issued (SUBSCRIBE ch) (issued r) =
         times_issued (UNSUBSCRIBE ch) (issued r) + (if 0 < refcount r ch then 1 else 0)))"
proof -
  from assms have "rs_inv r" by (simp add: rs_inv_run rs_inv_new)
  then show ?thesis by (simp add: rs_inv_def)
qed

definition sample_redis :: "nat redisSubscriber" where
  "sample_redis = \<lparr>deliver = None, activeChans = Map.empty, rs_closed = False, started = False,
     read_loops = 0, issued = []\<rparr>"

lemma New_sample_redis:
  "NewRedisSubscriber (\<lambda>_. None) ''redis://localhost:6379/0'' None = Inr sample_redis"
  by (simp add: NewRedisSubscriber_def sample_redis_def)

definition second_fails :: redis_net where
  "second_fails h c = (if length h = 1 then Some (ErrorString ''i/o timeout'') else None)"

theorem rs_run_live_witness:
  "rs_held (rs_run second_fails [DoSubscribe ''a'', DoSubscribe ''b'', DoUnsubscribe ''a''] sample_redis) \<subseteq>
   live (issued (rs_run second_fails [DoSubscribe ''a'', DoSubscribe ''b'', DoUnsubscribe ''a''] sample_redis))"
  by (rule rs_run_live [OF New_sample_redis refl, THEN conjunct1])



text \<open>
  C0: \<open>Close\<close> is final and idempotent: a second \<open>Close\<close> does nothing and returns nil,
  \<open>Subscribe\<close> fails with the subscriber-closed error and \<open>Unsubscribe\<close> is a no-op, each
  without a Redis command.
\<close>

theorem rs_Close_final:
  fixes r :: "'h redisSubscriber"
  shows "let r' = fst (rs_Close net r)
     in rs_closed r' \<and> rs_Close net' r' = (r', None) \<and>
        rs_Subscribe net' ch r' = (r', Some (ErrorString ''redis subscriber closed'')) \<and>
        rs_Unsubscribe net' ch r' = (r', None)"
  by (auto simp: rs_Close_def rs_Subscribe_def rs_Unsubscribe_def issue_def Let_def)

text \<open>
  The read loop hands every message that arrives while a callback is attached to that
  callback, unchanged and in order of arrival, and drops only messages that arrive with none.
\<close>

theorem readLoop_delivers:
  "readLoop ms =
     [(d, \<lparr>Channel = ch, Payload = p\<rparr>). (r, ch, p) \<leftarrow> ms, d \<leftarrow> (case deliver r of None \<Rightarrow> [] | Some d \<Rightarrow> [d])]"
  by (induction ms rule: readLoop.induct) (auto simp: read_turn_def split: option.splits)

section \<open>The subscriber as the hub's channel manager\<close>

definition redisManager :: "redis_net \<Rightarrow> ('h redisSubscriber) channelManager" where
  "redisManager net = \<lparr>Subscribe = rs_Subscribe net, Unsubscribe = rs_Unsubscribe net\<rparr>"

lemma manager_listens [simp]:
  "deliver (fst (Subscribe (redisManager net) ch r)) = deliver r"
  "deliver (fst (Unsubscribe (redisManager net) ch r)) = deliver r"
  "read_loops (fst (Subscribe (redisManager net) ch r)) = read_loops r"
  "read_loops (fst (Unsubscribe (redisManager net) ch r)) = read_loops r"
  by (auto simp: redisManager_def rs_Subscribe_def rs_Unsubscribe_def issue_def Let_def split: option.split prod.split)

text \<open>As the hub uses it, no channel is ever counted twice and the subscriber is open.\<close>

definition rs_single :: "'h redisSubscriber \<Rightarrow> bool" where
  "rs_single r \<longleftrightarrow> rs_inv r \<and> \<not> rs_closed r \<and> (\<forall>ch. refcount r ch \<le> 1)"

lemma not_held_refcount:
  assumes "rs_single r" and "ch \<notin> rs_held r"
  shows "refcount r ch = 0"
  using assms refcount_nonneg [of r ch] by (auto simp: rs_single_def rs_held_def)

lemma rs_Subscribe_closed: "rs_closed (fst (rs_Subscribe net ch r)) = rs_closed r"
  using rs_step_closed [of "DoSubscribe ch" net r] by simp

lemma rs_Subscribe_single:
  assumes "rs_single r" and "ch \<notin> rs_held r" and "rs_Subscribe net ch r = (r', e)"
  shows "rs_single r' \<and> rs_held r' = (if e = None then insert ch (rs_held r) else rs_held r)"
proof -
  have open_: "\<not> rs_closed r" and inv: "rs_inv r" and le: "\<And>c. refcount r c \<le> 1"
    using assms(1) by (simp_all add: rs_single_def)
  have "refcount r' c = (if e = None \<and> c = ch then 1 else refcount r c)" for c
    using rs_Subscribe_refcount [OF open_, of net ch r'] assms(3) not_held_refcount [OF assms(1,2)]
    by (cases e) auto
  moreover have "rs_inv r'" "\<not> rs_closed r'"
    using rs_inv_Subscribe [OF inv, of net ch] rs_Subscribe_closed [of net ch r] assms(3) open_ by simp_all
  ultimately show ?thesis using le open_ by (auto simp: rs_single_def rs_held_def)
qed

lemma rs_Unsubscribe_closed: "rs_closed (fst (rs_Unsubscribe net ch r)) = rs_closed r"
  using rs_step_closed [of "DoUnsubscribe ch" net r] by simp

lemma rs_Unsubscribe_single:
  assumes "rs_single r"
  shows "rs_held (fst (rs_Unsubscribe net ch r)) = rs_held r - {ch}"
    and "rs_single (fst (rs_Unsubscribe net ch r))"
proof -
  have open_: "\<not> rs_closed r" and inv: "rs_inv r" and le: "\<And>c. refcount r c \<le> 1"
    using assms by (simp_all add: rs_single_def)
  note rc = rs_Unsubscribe_refcount [OF inv open_, of net ch]
  have "max 0 (refcount r ch - 1) = 0" using le [of ch] by simp
  with open_ le have "rs_held (fst (rs_Unsubscribe net ch r)) = rs_held r - {ch} \<and>
      rs_single (fst (rs_Unsubscribe net ch r))"
    by (auto simp: rs_held_def rs_single_def rs_Unsubscribe_closed rc rs_inv_Unsubscribe inv)
  then show "rs_held (fst (rs_Unsubscribe net ch r)) = rs_held r - {ch}"
    and "rs_single (fst (rs_Unsubscribe net ch r))" by blast+
qed

definition rs_faulty :: "'h redisSubscriber \<Rightarrow> bool" where
  "rs_faulty r \<longleftrightarrow> rs_closed r \<or> \<not> fault_free (issued r)"

lemma rs_Subscribe_faulty:
  "rs_Subscribe net ch r = (r', Some e) \<Longrightarrow> rs_faulty r'"
  "rs_faulty r \<Longrightarrow> rs_faulty (fst (rs_Subscribe net ch r))"
  by (auto simp: rs_faulty_def rs_Subscribe_def issue_def Let_def split: if_splits option.splits prod.splits)

lemma rs_Unsubscribe_faulty: "rs_faulty r \<Longrightarrow> rs_faulty (fst (rs_Unsubscribe net ch r))"
  by (auto simp: rs_faulty_def rs_Unsubscribe_def issue_def Let_def split: option.splits prod.splits)

interpretation rsub: channel_manager "redisManager net" rs_held rs_single rs_faulty for net
proof unfold_locales
  fix ch and m :: "'a redisSubscriber"
  assume m: "rs_single m" "ch \<notin> rs_held m"
  show "rs_held m' = insert ch (rs_held m)" if "Subscribe (redisManager net) ch m = (m', None)" for m'
    using rs_Subscribe_single [OF m, of net] that by (simp add: redisManager_def)
  show "rs_held m' = rs_held m" if "Subscribe (redisManager net) ch m = (m', Some e)" for m' e
    using rs_Subscribe_single [OF m, of net] that by (simp add: redisManager_def)
  show "rs_single (fst (Subscribe (redisManager net) ch m))"
    using rs_Subscribe_single [OF m, of net] by (cases "rs_Subscribe net ch m") (simp add: redisManager_def)
qed (auto simp: redisManager_def rs_Unsubscribe_single rs_Subscribe_faulty rs_Unsubscribe_faulty)

end
