(* ===== verification/GoJson.thy ===== *)
theory GoJson
  imports GoText
begin

text \<open>
  Go's \<open>encoding/json\<close> as the gateway uses it: \<open>Unmarshal\<close> of a document into a struct
  and \<open>Marshal\<close> of a map of strings. Documents are byte strings. Parsing gives a \<open>json\<close>
  tree whose strings are decoded (escapes resolved, bytes that are not UTF-8 replaced by
  U+FFFD) and whose numbers keep their text; decoding into a struct is over the tree.
\<close>

abbreviation code :: "char \<Rightarrow> nat" where
  "code c \<equiv> of_char c"

section \<open>UTF-8\<close>

definition between :: "nat \<Rightarrow> char \<Rightarrow> nat \<Rightarrow> bool" where
  "between lo c hi \<longleftrightarrow> lo \<le> code c \<and> code c \<le> hi"

definition cont_byte :: "char \<Rightarrow> bool" where
  "cont_byte c = between 0x80 c 0xBF"

definition second_of_three :: "char \<Rightarrow> char \<Rightarrow> bool" where
  "second_of_three a b =
     between (if code a = 0xE0 then 0xA0 else 0x80) b (if code a = 0xED then 0x9F else 0xBF)"

definition second_of_four :: "char \<Rightarrow> char \<Rightarrow> bool" where
  "second_of_four a b =
     between (if code a = 0xF0 then 0x90 else 0x80) b (if code a = 0xF4 then 0x8F else 0xBF)"

text \<open>The length of the valid encoding a string starts with, 0 if it starts with none.\<close>

fun rune_len :: "string \<Rightarrow> nat" where
  "rune_len [] = 0"
| "rune_len (a # s) =
     (if code a < 0x80 then 1
      else if between 0xC2 a 0xDF then
        (case s of b # _ \<Rightarrow> if cont_byte b then 2 else 0 | _ \<Rightarrow> 0)
      else if between 0xE0 a 0xEF then
        (case s of b # c # _ \<Rightarrow>
           if second_of_three a b \<and> cont_byte c then 3 else 0
         | _ \<Rightarrow> 0)
      else if between 0xF0 a 0xF4 then
        (case s of b # c # d # _ \<Rightarrow>
           if second_of_four a b \<and> cont_byte c \<and> cont_byte d then 4 else 0
         | _ \<Rightarrow> 0)
      else 0)"

definition encode_rune :: "nat \<Rightarrow> string" where
  "encode_rune r =
     (if r < 0x80 then [char_of r]
      else if r < 0x800 then [char_of (0xC0 + r div 64), char_of (0x80 + r mod 64)]
      else if 0xD800 \<le> r \<and> r < 0xE000 \<or> 0x10FFFF < r then [CHR 0xEF, CHR 0xBF, CHR 0xBD]
      else if r < 0x10000 then
        [char_of (0xE0 + r div 4096), char_of (0x80 + r div 64 mod 64), char_of (0x80 + r mod 64)]
      else
        [char_of (0xF0 + r div 262144), char_of (0x80 + r div 4096 mod 64),
         char_of (0x80 + r div 64 mod 64), char_of (0x80 + r mod 64)])"

definition replacement :: string where
  "replacement = [CHR 0xEF, CHR 0xBF, CHR 0xBD]"

section \<open>String literals\<close>

definition hex_val :: "char \<Rightarrow> nat option" where
  "hex_val c =
     (if between 48 c 57 then Some (code c - 48)
      else if between 97 c 102 then Some (code c - 87)
      else if between 65 c 70 then Some (code c - 55)
      else None)"

text \<open>Four hexadecimal digits, as after \<open>\u\<close>.\<close>

definition hex4 :: "string \<Rightarrow> (nat \<times> string) option" where
  "hex4 s =
     (case s of
        a # b # c # d # r \<Rightarrow>
          (case (hex_val a, hex_val b, hex_val c, hex_val d) of
             (Some w, Some x, Some y, Some z) \<Rightarrow> Some (((w * 16 + x) * 16 + y) * 16 + z, r)
           | _ \<Rightarrow> None)
      | _ \<Rightarrow> None)"

definition simple_escape :: "char \<Rightarrow> char option" where
  "simple_escape c = map_of
     [(CHR 0x22, CHR 0x22), (CHR 0x5C, CHR 0x5C), (CHR ''/'', CHR ''/''), (CHR ''b'', CHR 0x08),
      (CHR ''f'', CHR 0x0C), (CHR ''n'', CHR 0x0A), (CHR ''r'', CHR 0x0D), (CHR ''t'', CHR 0x09)] c"

text \<open>
  The second half of a surrogate pair: when the text goes on with an escaped low surrogate,
  the pair is one rune; otherwise the first half is replaced by U+FFFD and the text that
  follows is read on its own.
\<close>

definition surrogate :: "nat \<Rightarrow> string \<Rightarrow> string \<times> string" where
  "surrogate r1 s =
     (case s of
        b # u # s' \<Rightarrow>
          (if b = CHR 0x5C \<and> u = CHR ''u'' then
             (case hex4 s' of
                Some (r2, s'') \<Rightarrow>
                  if r1 < 0xDC00 \<and> 0xDC00 \<le> r2 \<and> r2 < 0xE000
                  then (encode_rune (0x10000 + (r1 - 0xD800) * 1024 + (r2 - 0xDC00)), s'')
                  else (replacement, s)
              | None \<Rightarrow> (replacement, s))
           else (replacement, s))
      | _ \<Rightarrow> (replacement, s))"

text \<open>One unit of a literal's body, not its closing quote: its decoded bytes and the rest.\<close>

fun string_unit :: "string \<Rightarrow> (string \<times> string) option" where
  "string_unit [] = None"
| "string_unit (c # s) =
     (if c = CHR 0x5C then
        (case s of
           [] \<Rightarrow> None
         | e # s' \<Rightarrow>
             if e = CHR ''u'' then
               (case hex4 s' of
                  None \<Rightarrow> None
                | Some (r, s'') \<Rightarrow>
                    if 0xD800 \<le> r \<and> r < 0xE000 then Some (surrogate r s'')
                    else Some (encode_rune r, s''))
             else map_option (\<lambda>x. ([x], s')) (simple_escape e))
      else if code c < 0x20 then None
      else if rune_len (c # s) = 0 then Some (replacement, s)
      else Some (take (rune_len (c # s)) (c # s), drop (rune_len (c # s)) (c # s)))"

lemma hex4_length: "hex4 s = Some (n, r) \<Longrightarrow> length r < length s"
  by (auto simp: hex4_def split: list.splits option.splits)

lemma surrogate_length: "surrogate r s = (out, t) \<Longrightarrow> length t \<le> length s"
  by (auto simp: surrogate_def split: list.splits if_splits option.splits dest!: hex4_length)

lemma string_unit_length: "string_unit s = Some (out, r) \<Longrightarrow> length r < length s"
proof (cases s)
  case (Cons c t)
  assume *: "string_unit s = Some (out, r)"
  show ?thesis
  proof (cases "c = CHR 0x5C")
    case True
    with * Cons show ?thesis
      by (auto split: list.splits if_splits option.splits prod.splits
          dest!: hex4_length surrogate_length)
  next
    case False
    with * Cons show ?thesis by (auto simp del: rune_len.simps split: if_splits)
  qed
qed simp

text \<open>The body of a string literal up to its closing quote.\<close>

function scan_string :: "string \<Rightarrow> (string \<times> string) option" where
  "scan_string s =
     (if s \<noteq> [] \<and> hd s = CHR 0x22 then Some ([], tl s)
      else case string_unit s of
             None \<Rightarrow> None
           | Some (out, r) \<Rightarrow>
               (case scan_string r of
                  None \<Rightarrow> None
                | Some (out', r') \<Rightarrow> Some (out @ out', r')))"
  by pat_completeness auto
termination
  by (relation "measure length") (auto dest: string_unit_length)

declare scan_string.simps [simp del] rune_len.simps [simp del]

lemma scan_string_length: "scan_string s = Some (out, r) \<Longrightarrow> length r < length s"
proof (induction s arbitrary: out r rule: scan_string.induct)
  case (1 s)
  then show ?case
    by (subst (asm) (2) scan_string.simps)
       (fastforce split: if_splits option.splits prod.splits dest: string_unit_length)
qed

section \<open>Documents\<close>

datatype json =
    JNull
  | JBool bool
  | JNum string
  | JStr string
  | JArr "json list"
  | JObj "(string \<times> json) list"

definition is_ws :: "char \<Rightarrow> bool" where
  "is_ws c \<longleftrightarrow> c \<in> {CHR 0x20, CHR 0x09, CHR 0x0A, CHR 0x0D}"

definition skip_ws :: "string \<Rightarrow> string" where
  "skip_ws = dropWhile is_ws"

lemma skip_ws_length: "length (skip_ws s) \<le> length s"
  by (simp add: skip_ws_def length_dropWhile_le)

lemma skip_ws_ConsD: "skip_ws s = c # r \<Longrightarrow> length r < length s"
  using skip_ws_length [of s] by simp

definition scan_digits :: "string \<Rightarrow> (string \<times> string) option" where
  "scan_digits s =
     (if takeWhile is_digit s = [] then None
      else Some (takeWhile is_digit s, dropWhile is_digit s))"

text \<open>\<open>-? (0 | [1-9][0-9]*) (. [0-9]+)? ([eE] [+-]? [0-9]+)?\<close>\<close>

definition scan_int_part :: "string \<Rightarrow> (string \<times> string) option" where
  "scan_int_part s =
     (case s of
        [] \<Rightarrow> None
      | c # r \<Rightarrow> if c = CHR ''0'' then Some (''0'', r) else scan_digits s)"

definition scan_frac_part :: "string \<Rightarrow> (string \<times> string) option" where
  "scan_frac_part s =
     (case s of
        c # r \<Rightarrow>
          if c = CHR ''.'' then map_option (\<lambda>(d, t). (c # d, t)) (scan_digits r) else Some ([], s)
      | [] \<Rightarrow> Some ([], s))"

definition scan_exp_part :: "string \<Rightarrow> (string \<times> string) option" where
  "scan_exp_part s =
     (case s of
        e # r \<Rightarrow>
          if e = CHR ''e'' \<or> e = CHR ''E'' then
            (case r of
               g # t \<Rightarrow>
                 if g = CHR ''+'' \<or> g = CHR ''-''
                 then map_option (\<lambda>(d, u). (e # g # d, u)) (scan_digits t)
                 else map_option (\<lambda>(d, u). (e # d, u)) (scan_digits r)
             | [] \<Rightarrow> None)
          else Some ([], s)
      | [] \<Rightarrow> Some ([], s))"

definition scan_number :: "string \<Rightarrow> (string \<times> string) option" where
  "scan_number s =
     (let neg = (take 1 s = ''-''); s0 = (if neg then tl s else s)
      in Option.bind (scan_int_part s0) (\<lambda>(i, s1).
         Option.bind (scan_frac_part s1) (\<lambda>(f, s2).
         Option.bind (scan_exp_part s2) (\<lambda>(e, s3).
           Some ((if neg then ''-'' else []) @ i @ f @ e, s3)))))"

definition maxNestingDepth :: nat where
  "maxNestingDepth = 10000"

text \<open>
  The parser reads one value, the elements of an array after its bracket or the members of
  an object after its brace. \<open>d\<close> is the number of arrays and objects around the value.
  The length tests only serve the termination proof: the rest of a parse is always shorter
  (\<open>parse_json_shorter\<close>), so they never fail.
\<close>

datatype parse_mode = Value | Elements | Members

function parse_json :: "parse_mode \<Rightarrow> nat \<Rightarrow> string \<Rightarrow> (json \<times> string) option" where
  "parse_json Value d s =
     (case skip_ws s of
        [] \<Rightarrow> None
      | c # r \<Rightarrow>
          if c = CHR 0x22 then map_option (\<lambda>(t, r'). (JStr t, r')) (scan_string r)
          else if c = CHR ''{'' then
            (if maxNestingDepth \<le> d then None
             else if take 1 (skip_ws r) = ''}'' then Some (JObj [], tl (skip_ws r))
             else parse_json Members (Suc d) r)
          else if c = CHR ''['' then
            (if maxNestingDepth \<le> d then None
             else if take 1 (skip_ws r) = '']'' then Some (JArr [], tl (skip_ws r))
             else parse_json Elements (Suc d) r)
          else if has_prefix ''true'' (c # r) then Some (JBool True, drop 3 r)
          else if has_prefix ''false'' (c # r) then Some (JBool False, drop 4 r)
          else if has_prefix ''null'' (c # r) then Some (JNull, drop 3 r)
          else map_option (\<lambda>(n, r'). (JNum n, r')) (scan_number (c # r)))"
| "parse_json Elements d s =
     (case parse_json Value d s of
        None \<Rightarrow> None
      | Some (v, r) \<Rightarrow>
          (case skip_ws r of
             [] \<Rightarrow> None
           | c # r' \<Rightarrow>
               if c = CHR '']'' then Some (JArr [v], r')
               else if c = CHR '','' \<and> length r' < length s then
                 (case parse_json Elements d r' of
                    Some (JArr vs, t) \<Rightarrow> Some (JArr (v # vs), t)
                  | _ \<Rightarrow> None)
               else None))"
| "parse_json Members d s =
     (case skip_ws s of
        [] \<Rightarrow> None
      | q # s1 \<Rightarrow>
          if q \<noteq> CHR 0x22 then None
          else case scan_string s1 of
            None \<Rightarrow> None
          | Some (k, s2) \<Rightarrow>
              (case skip_ws s2 of
                 [] \<Rightarrow> None
               | c # s3 \<Rightarrow>
                   if c \<noteq> CHR '':'' \<or> length s \<le> length s3 then None
                   else case parse_json Value d s3 of
                     None \<Rightarrow> None
                   | Some (v, r) \<Rightarrow>
                       (case skip_ws r of
                          [] \<Rightarrow> None
                        | e # r' \<Rightarrow>
                            if e = CHR ''}'' then Some (JObj [(k, v)], r')
                            else if e = CHR '','' \<and> length r' < length s then
                              (case parse_json Members d r' of
                                 Some (JObj kvs, t) \<Rightarrow> Some (JObj ((k, v) # kvs), t)
                               | _ \<Rightarrow> None)
                            else None)))"
  by pat_completeness auto

termination
  by (relation "measure (\<lambda>(m, d, s). 2 * length s + (if m = Elements then 1 else 0))")
     (auto dest!: skip_ws_ConsD)

declare parse_json.simps [simp del]

text \<open>\<open>json.Unmarshal\<close> first checks that the data is one document and nothing else.\<close>

definition json_document :: "string \<Rightarrow> json option" where
  "json_document s =
     (case parse_json Value 0 s of
        None \<Rightarrow> None
      | Some (v, r) \<Rightarrow> if skip_ws r = [] then Some v else None)"

lemma scan_digits_length: "scan_digits s = Some (d, r) \<Longrightarrow> length r < length s"
  by (auto simp: scan_digits_def split: if_splits intro: dropWhile_shorter)

lemma scan_number_length: "scan_number s = Some (n, r) \<Longrightarrow> length r < length s"
proof -
  have i: "length t < length s" if "scan_int_part s = Some (d, t)" for s d t
    using that by (auto simp: scan_int_part_def split: list.splits if_splits dest: scan_digits_length)
  have f: "length t \<le> length s" if "scan_frac_part s = Some (d, t)" for s d t
    using that by (auto simp: scan_frac_part_def split: list.splits if_splits dest!: scan_digits_length)
  have e: "length t \<le> length s" if "scan_exp_part s = Some (d, t)" for s d t
    using that by (auto simp: scan_exp_part_def split: list.splits if_splits dest!: scan_digits_length)
  assume "scan_number s = Some (n, r)"
  then obtain a b c u v where "scan_int_part (if take 1 s = ''-'' then tl s else s) = Some (a, u)"
    "scan_frac_part u = Some (b, v)" "scan_exp_part v = Some (c, r)"
    by (auto simp: scan_number_def Let_def split: bind_splits prod.splits)
  then have "length r < length (if take 1 s = ''-'' then tl s else s)"
    by (blast dest: i f e intro: le_less_trans le_trans)
  then show ?thesis by (auto split: if_splits)
qed

text \<open>The rest of a parse is always shorter, so the length tests of \<open>parse_json\<close> hold.\<close>

lemma parse_json_shorter: "parse_json m d s = Some (v, r) \<Longrightarrow> length r < length s"
proof (induction m d s arbitrary: v r rule: parse_json.induct)
  case (1 d s)
  obtain c t where s: "skip_ws s = c # t"
    using "1.prems" by (auto simp: parse_json.simps split: list.splits)
  have tl: "length (tl (skip_ws t)) \<le> length t" using skip_ws_length [of t] by simp
  consider "c = CHR 0x22" | "c = CHR ''{''" | "c = CHR ''[''"
    | "c \<noteq> CHR 0x22" "c \<noteq> CHR ''{''" "c \<noteq> CHR ''[''" by blast
  then have "length r \<le> length t"
  proof cases
    case 1
    then show ?thesis using "1.prems" s
      by (auto simp: parse_json.simps(1) dest: scan_string_length)
  next
    case 2
    then show ?thesis using "1.prems" s "1.IH"(1) [OF s] tl
      by (auto simp: parse_json.simps(1) less_imp_le split: if_splits)
  next
    case 3
    then show ?thesis using "1.prems" s "1.IH"(2) [OF s] tl
      by (auto simp: parse_json.simps(1) less_imp_le split: if_splits)
  next
    case 4
    then show ?thesis
      using "1.prems" s
      by (auto simp: parse_json.simps(1) simp del: has_prefix.simps split: if_splits
          dest!: scan_number_length)
  qed
  then show ?case using skip_ws_ConsD [OF s] by simp
next
  case (2 d s)
  obtain w u c t where v: "parse_json Value d s = Some (w, u)" "skip_ws u = c # t"
    using "2.prems" by (auto simp: parse_json.simps(2) split: option.splits list.splits)
  have t: "length t < length s" using "2.IH"(1) [OF v(1)] skip_ws_ConsD [OF v(2)] by simp
  show ?case
  proof (cases "c = CHR '']''")
    case True
    with "2.prems" v t show ?thesis by (simp add: parse_json.simps(2))
  next
    case False
    with "2.prems" v t obtain vs where "parse_json Elements d t = Some (JArr vs, r)"
      by (simp add: parse_json.simps(2) split: if_splits option.splits prod.splits json.splits)
    then show ?thesis using "2.IH"(2) [OF v(1) refl v(2)] False "2.prems" v t
      by (auto simp: parse_json.simps(2) split: if_splits)
  qed
next
  case (3 d s)
  obtain s1 k s2 s3 w u e t where m: "skip_ws s = CHR 0x22 # s1" "scan_string s1 = Some (k, s2)"
    "skip_ws s2 = CHR '':'' # s3" "length s3 < length s" "parse_json Value d s3 = Some (w, u)"
    "skip_ws u = e # t"
    using "3.prems"
    by (auto simp: parse_json.simps(3) split: option.splits list.splits if_splits prod.splits)
  have t: "length t < length s"
    using "3.IH"(1) [OF m(1) _ m(2) refl m(3)] m skip_ws_ConsD [OF m(6)] by simp
  show ?case
  proof (cases "e = CHR ''}''")
    case True
    with "3.prems" m t show ?thesis by (simp add: parse_json.simps(3))
  next
    case False
    with "3.prems" m t obtain kvs where "parse_json Members d t = Some (JObj kvs, r)"
      by (simp add: parse_json.simps(3) split: if_splits option.splits prod.splits json.splits)
    then show ?thesis using "3.IH"(2) [OF m(1) _ m(2) refl m(3) _ m(5) refl m(6)] False "3.prems" m t
      by (auto simp: parse_json.simps(3) split: if_splits)
  qed
qed

section \<open>Decoding into structs\<close>

text \<open>
  A member's name matches a field up to case folding: ASCII letters, the long s U+017F and
  the Kelvin sign U+212A are folded to their capital; no other rune folds to ASCII, which is
  all the field names here consist of.
\<close>

definition upper_char :: "char \<Rightarrow> char" where
  "upper_char c = (if between 97 c 122 then char_of (code c - 32) else c)"

function foldName :: "string \<Rightarrow> string" where
  "foldName s =
     (case s of
        [] \<Rightarrow> []
      | c # r \<Rightarrow>
          if has_prefix [CHR 0xC5, CHR 0xBF] s then CHR ''S'' # foldName (drop 2 s)
          else if has_prefix [CHR 0xE2, CHR 0x84, CHR 0xAA] s then CHR ''K'' # foldName (drop 3 s)
          else upper_char c # foldName r)"
  by pat_completeness auto
termination
  by (relation "measure length") auto

declare foldName.simps [simp del]

definition is_field :: "string \<Rightarrow> string \<Rightarrow> bool" where
  "is_field name key \<longleftrightarrow> foldName key = foldName name"

text \<open>
  Decoding of one value over the field's current value: \<open>null\<close> leaves it as it is, a value
  of the wrong kind is an \<open>UnmarshalTypeError\<close> (\<open>None\<close>).
\<close>

fun decode_string :: "json \<Rightarrow> string \<Rightarrow> string option" where
  "decode_string (JStr s) cur = Some s"
| "decode_string JNull cur = Some cur"
| "decode_string _ cur = None"

fun decode_bool :: "json \<Rightarrow> bool \<Rightarrow> bool option" where
  "decode_bool (JBool b) cur = Some b"
| "decode_bool JNull cur = Some cur"
| "decode_bool _ cur = None"

fun decode_int64 :: "json \<Rightarrow> int \<Rightarrow> int option" where
  "decode_int64 (JNum t) cur = (case ParseInt t of Inl _ \<Rightarrow> None | Inr i \<Rightarrow> Some i)"
| "decode_int64 JNull cur = Some cur"
| "decode_int64 _ cur = None"

text \<open>
  Decoding into a slice of strings reuses its backing array: element \<open>i\<close> is decoded over
  what the array holds there. \<open>decode_elems old vs\<close> gives the array after the elements;
  the slice is its first \<open>length vs\<close> entries.
\<close>

fun decode_elems :: "string list \<Rightarrow> json list \<Rightarrow> string list option" where
  "decode_elems old [] = Some old"
| "decode_elems old (v # vs) =
     (case decode_string v (case old of [] \<Rightarrow> [] | x # _ \<Rightarrow> x) of
        None \<Rightarrow> None
      | Some x \<Rightarrow> map_option (Cons x) (decode_elems (tl old) vs))"

text \<open>A slice is its backing array and its length.\<close>

type_synonym string_slice = "string list \<times> nat"

definition slice_elems :: "string_slice \<Rightarrow> string list" where
  "slice_elems sl = take (snd sl) (fst sl)"

fun decode_strings :: "json \<Rightarrow> string_slice \<Rightarrow> string_slice option" where
  "decode_strings (JArr []) cur = Some ([], 0)"
| "decode_strings (JArr vs) cur = map_option (\<lambda>a. (a, length vs)) (decode_elems (fst cur) vs)"
| "decode_strings JNull cur = Some ([], 0)"
| "decode_strings _ cur = None"

text \<open>
  Decoding of an object into a struct: its members in order, each by \<open>field\<close>, which leaves
  the struct alone for a name the struct does not have.
\<close>

fun decode_members :: "(string \<Rightarrow> json \<Rightarrow> 'a \<Rightarrow> 'a option) \<Rightarrow> (string \<times> json) list \<Rightarrow> 'a \<Rightarrow> 'a option" where
  "decode_members field [] a = Some a"
| "decode_members field ((k, v) # kvs) a =
     (case field k v a of None \<Rightarrow> None | Some a' \<Rightarrow> decode_members field kvs a')"

fun decode_struct :: "(string \<Rightarrow> json \<Rightarrow> 'a \<Rightarrow> 'a option) \<Rightarrow> json \<Rightarrow> 'a \<Rightarrow> 'a option" where
  "decode_struct field (JObj kvs) a = decode_members field kvs a"
| "decode_struct field JNull a = Some a"
| "decode_struct field _ a = None"

text \<open>\<open>json.Unmarshal(data, &a)\<close>: \<open>None\<close> for a non-nil error.\<close>

definition Unmarshal :: "(string \<Rightarrow> json \<Rightarrow> 'a \<Rightarrow> 'a option) \<Rightarrow> bytes \<Rightarrow> 'a \<Rightarrow> 'a option" where
  "Unmarshal field data a =
     (case json_document data of None \<Rightarrow> None | Some j \<Rightarrow> decode_struct field j a)"

section \<open>Encoding\<close>

definition hex_digit :: "nat \<Rightarrow> char" where
  "hex_digit n = (if n < 10 then char_of (48 + n) else char_of (87 + n))"

definition u_escape :: "nat \<Rightarrow> string" where
  "u_escape n =
     [CHR 0x5C, CHR ''u'', hex_digit (n div 4096 mod 16), hex_digit (n div 256 mod 16),
      hex_digit (n div 16 mod 16), hex_digit (n mod 16)]"

text \<open>One rune of a string, as \<open>Marshal\<close> with HTML escaping writes it, and the rest.\<close>

fun quote_unit :: "string \<Rightarrow> string \<times> string" where
  "quote_unit [] = ([], [])"
| "quote_unit (c # s) =
     (if code c < 0x80 then
        ((if c = CHR 0x22 \<or> c = CHR 0x5C then [CHR 0x5C, c]
          else if c = CHR 0x08 then [CHR 0x5C, CHR ''b'']
          else if c = CHR 0x0C then [CHR 0x5C, CHR ''f'']
          else if c = CHR 0x0A then [CHR 0x5C, CHR ''n'']
          else if c = CHR 0x0D then [CHR 0x5C, CHR ''r'']
          else if c = CHR 0x09 then [CHR 0x5C, CHR ''t'']
          else if code c < 0x20 \<or> c = CHR ''<'' \<or> c = CHR ''>'' \<or> c = CHR ''&'' then u_escape (code c)
          else [c]), s)
      else if rune_len (c # s) = 0 then (u_escape 0xFFFD, s)
      else if has_prefix [CHR 0xE2, CHR 0x80, CHR 0xA8] (c # s) then (u_escape 0x2028, drop 2 s)
      else if has_prefix [CHR 0xE2, CHR 0x80, CHR 0xA9] (c # s) then (u_escape 0x2029, drop 2 s)
      else (take (rune_len (c # s)) (c # s), drop (rune_len (c # s)) (c # s)))"

lemma quote_unit_length: "s \<noteq> [] \<Longrightarrow> length (snd (quote_unit s)) < length s"
  by (cases s) (auto simp: simp del: has_prefix.simps)

function quote_body :: "string \<Rightarrow> string" where
  "quote_body s = (if s = [] then [] else fst (quote_unit s) @ quote_body (snd (quote_unit s)))"
  by pat_completeness auto
termination
  by (relation "measure length") (simp_all add: quote_unit_length)

declare quote_body.simps [simp del] quote_unit.simps [simp del] string_unit.simps [simp del]

definition Quote :: "string \<Rightarrow> string" where
  "Quote s = [CHR 0x22] @ quote_body s @ [CHR 0x22]"

text \<open>
  A Go map of strings is marshalled as an object with its keys sorted; the caller gives the
  members in that order.
\<close>

fun marshal_members :: "(string \<times> string) list \<Rightarrow> string" where
  "marshal_members [] = []"
| "marshal_members [(k, v)] = Quote k @ '':'' @ Quote v"
| "marshal_members ((k, v) # kvs) = Quote k @ '':'' @ Quote v @ '','' @ marshal_members kvs"

definition marshal_strings :: "(string \<times> string) list \<Rightarrow> string" where
  "marshal_strings kvs = ''{'' @ marshal_members kvs @ ''}''"

text \<open>What is left of a string when bytes that are not UTF-8 are replaced by U+FFFD.\<close>

function to_utf8 :: "string \<Rightarrow> string" where
  "to_utf8 s =
     (if s = [] then []
      else if rune_len s = 0 then replacement @ to_utf8 (tl s)
      else take (rune_len s) s @ to_utf8 (drop (rune_len s) s))"
  by pat_completeness auto
termination
  by (relation "measure length") auto

declare to_utf8.simps [simp del]

section \<open>Round trips\<close>

lemma hex_val_digit: "n < 16 \<Longrightarrow> hex_val (hex_digit n) = Some n"
  by (auto simp: hex_val_def hex_digit_def between_def)

lemma hex4_u_escape:
  assumes "n < 65536"
  shows "hex4 (hex_digit (n div 4096 mod 16) # hex_digit (n div 256 mod 16) #
    hex_digit (n div 16 mod 16) # hex_digit (n mod 16) # r) = Some (n, r)"
proof -
  define x where "x = n div 16"
  define y where "y = x div 16"
  define z where "z = y div 16"
  have d: "n div 256 = y" "n div 4096 = z" by (simp_all add: x_def y_def z_def div_mult2_eq [symmetric])
  have z: "z < 16" using assms by (simp add: x_def y_def z_def div_mult2_eq [symmetric])
  have "z * 16 + y mod 16 = y" "y * 16 + x mod 16 = x" "x * 16 + n mod 16 = n"
    by (simp_all add: x_def y_def z_def)
  with z show ?thesis by (simp add: hex4_def hex_val_digit d x_def [symmetric])
qed

lemma string_unit_u_escape:
  assumes "n < 0xD800 \<or> 0xE000 \<le> n \<and> n < 65536"
  shows "string_unit (u_escape n @ r) = Some (encode_rune n, r)"
proof -
  have "n < 65536" using assms by auto
  from hex4_u_escape [OF this, of r] assms show ?thesis
    by (auto simp: u_escape_def string_unit.simps)
qed

lemma rune_len_cases:
  assumes "0 < rune_len s"
  obtains (one) a t where "s = a # t" "code a < 0x80"
  | (two) a b t where "s = a # b # t" "between 0xC2 a 0xDF" "cont_byte b"
  | (three) a b c t where "s = a # b # c # t" "between 0xE0 a 0xEF" "second_of_three a b" "cont_byte c"
  | (four) a b c d t where "s = a # b # c # d # t" "between 0xF0 a 0xF4" "second_of_four a b"
      "cont_byte c" "cont_byte d"
  using assms
  by (cases s) (auto simp: rune_len.simps split: list.splits if_splits)

lemma rune_len_values:
  "code a < 0x80 \<Longrightarrow> rune_len (a # t) = 1"
  "between 0xC2 a 0xDF \<Longrightarrow> cont_byte b \<Longrightarrow> rune_len (a # b # t) = 2"
  "between 0xE0 a 0xEF \<Longrightarrow> second_of_three a b \<Longrightarrow> cont_byte c \<Longrightarrow> rune_len (a # b # c # t) = 3"
  "between 0xF0 a 0xF4 \<Longrightarrow> second_of_four a b \<Longrightarrow> cont_byte c \<Longrightarrow> cont_byte d \<Longrightarrow>
     rune_len (a # b # c # d # t) = 4"
  by (auto simp: rune_len.simps between_def)

lemma rune_len_take:
  assumes "0 < rune_len s"
  shows "rune_len (take (rune_len s) s @ r) = rune_len s"
  using assms by (cases s rule: rune_len_cases) (simp_all add: rune_len_values eval_nat_numeral)

lemma string_unit_ascii:
  assumes "code c < 0x80" and "0x20 \<le> code c" and "c \<noteq> CHR 0x5C"
  shows "string_unit (c # s) = Some ([c], s)"
  using assms by (simp add: string_unit.simps rune_len_values)

lemma to_utf8_ascii: "code c < 0x80 \<Longrightarrow> to_utf8 (c # s) = c # to_utf8 s"
  by (subst to_utf8.simps) (simp add: rune_len_values)

text \<open>
  \<open>good_unit q s t\<close>: \<open>q\<close> is a unit of a literal that reads back as what \<open>s\<close> has before \<open>t\<close>.
\<close>

definition good_unit :: "string \<Rightarrow> string \<Rightarrow> string \<Rightarrow> bool" where
  "good_unit q s t \<longleftrightarrow> q \<noteq> [] \<and> hd q \<noteq> CHR 0x22 \<and>
     (\<exists>out. (\<forall>r. string_unit (q @ r) = Some (out, r)) \<and> to_utf8 s = out @ to_utf8 t)"

lemma u_escape_hd: "u_escape n \<noteq> []" "hd (u_escape n) \<noteq> CHR 0x22"
  by (simp_all add: u_escape_def)

lemma good_unit_ascii:
  assumes "code c < 0x80"
  shows "good_unit (fst (quote_unit (c # s))) (c # s) s"
proof -
  consider "c \<in> {CHR 0x22, CHR 0x5C, CHR 0x08, CHR 0x0C, CHR 0x0A, CHR 0x0D, CHR 0x09}"
    | "c \<notin> {CHR 0x22, CHR 0x5C, CHR 0x08, CHR 0x0C, CHR 0x0A, CHR 0x0D, CHR 0x09}"
      "code c < 0x20 \<or> c \<in> {CHR ''<'', CHR ''>'', CHR ''&''}"
    | "c \<notin> {CHR 0x22, CHR 0x5C}" "0x20 \<le> code c" "c \<notin> {CHR ''<'', CHR ''>'', CHR ''&''}"
    by fastforce
  then show ?thesis
  proof cases
    case 1
    have q: "good_unit [CHR 0x5C, e] (c # s) s"
      if "simple_escape e = Some c" "e \<noteq> CHR ''u''" for e
      using that assms by (simp add: good_unit_def string_unit.simps to_utf8_ascii)
    have "\<exists>e. quote_unit (c # s) = ([CHR 0x5C, e], s) \<and> simple_escape e = Some c \<and> e \<noteq> CHR ''u''"
      using 1 by (elim insertE emptyE) (simp_all add: quote_unit.simps simple_escape_def)
    then show ?thesis using q by auto
  next
    case 2
    have u: "string_unit (u_escape (code c) @ r) = Some ([c], r)" for r
      using assms by (subst string_unit_u_escape) (auto simp: encode_rune_def)
    have "quote_unit (c # s) = (u_escape (code c), s)" using 2 assms by (simp add: quote_unit.simps)
    with assms show ?thesis
      by (simp add: good_unit_def to_utf8_ascii u_escape_hd u)
  next
    case 3
    have "c \<noteq> CHR 0x08" "c \<noteq> CHR 0x0C" "c \<noteq> CHR 0x0A" "c \<noteq> CHR 0x0D" "c \<noteq> CHR 0x09"
      using 3(2) by auto
    with 3 assms have "quote_unit (c # s) = ([c], s)" by (simp add: quote_unit.simps)
    moreover have "string_unit (c # r) = Some ([c], r)" for r
      using 3 assms by (simp add: string_unit_ascii)
    ultimately show ?thesis using 3 assms by (simp add: good_unit_def to_utf8_ascii)
  qed
qed

lemma rune_len_le: "rune_len s \<le> length s"
  by (cases s) (auto simp: rune_len.simps split: list.splits)

lemma good_unit_copy:
  assumes "s = c # t" and "0x80 \<le> code c" and "0 < rune_len s"
  shows "good_unit (take (rune_len s) s) s (drop (rune_len s) s)"
proof -
  let ?n = "rune_len s"
  have tk: "take ?n s = c # take (?n - 1) t" using assms(1,3) by (cases ?n) simp_all
  have ne: "c \<noteq> CHR 0x5C" "c \<noteq> CHR 0x22" "\<not> code c < 0x20" using assms(2) by auto
  obtain k where k: "?n = Suc k" using assms(3) by (cases ?n) simp_all
  have kl: "k \<le> length t" using rune_len_le [of s] assms(1) k by simp
  have "string_unit (take ?n s @ r) = Some (take ?n s, r)" for r
    using rune_len_take [OF assms(3), of r] ne kl
    by (simp add: assms(1) k [unfolded assms(1)] string_unit.simps)
  moreover have "to_utf8 s = take ?n s @ to_utf8 (drop ?n s)"
    using assms by (subst to_utf8.simps) simp
  ultimately show ?thesis using ne by (auto simp: good_unit_def tk)
qed

lemma char_of_literals:
  "char_of (239 :: nat) = CHR 0xEF" "char_of (191 :: nat) = CHR 0xBF" "char_of (189 :: nat) = CHR 0xBD"
  "char_of (226 :: nat) = CHR 0xE2" "char_of (128 :: nat) = CHR 0x80"
  "char_of (168 :: nat) = CHR 0xA8" "char_of (169 :: nat) = CHR 0xA9"
  by code_simp+

lemma good_unit_invalid:
  assumes "rune_len (c # s) = 0"
  shows "good_unit (u_escape 0xFFFD) (c # s) s"
proof -
  have "string_unit (u_escape 0xFFFD @ r) = Some (replacement, r)" for r
    by (subst string_unit_u_escape) (simp_all add: encode_rune_def replacement_def char_of_literals)
  moreover have "to_utf8 (c # s) = replacement @ to_utf8 s"
    using assms by (subst to_utf8.simps) simp
  ultimately show ?thesis by (simp add: good_unit_def u_escape_hd)
qed

lemma good_unit_separator:
  assumes "s = CHR 0xE2 # CHR 0x80 # z # t" and "z = CHR 0xA8 \<and> n = 0x2028 \<or> z = CHR 0xA9 \<and> n = 0x2029"
  shows "good_unit (u_escape n) s t"
proof -
  have "string_unit (u_escape n @ r) = Some ([CHR 0xE2, CHR 0x80, z], r)" for r
    using assms(2) by (subst string_unit_u_escape) (auto simp: encode_rune_def char_of_literals)
  moreover have "rune_len s = 3"
    unfolding assms(1) using assms(2)
    by (intro rune_len_values) (auto simp: between_def second_of_three_def cont_byte_def)
  then have "to_utf8 s = [CHR 0xE2, CHR 0x80, z] @ to_utf8 t"
    by (subst to_utf8.simps) (simp add: assms(1))
  ultimately show ?thesis by (simp add: good_unit_def u_escape_hd)
qed

lemma good_quote_unit:
  assumes "s \<noteq> []"
  shows "good_unit (fst (quote_unit s)) s (snd (quote_unit s))"
proof -
  obtain c t where s: "s = c # t" using assms by (cases s) auto
  let ?A = "has_prefix [CHR 0xE2, CHR 0x80, CHR 0xA8] s"
  let ?B = "has_prefix [CHR 0xE2, CHR 0x80, CHR 0xA9] s"
  consider "code c < 0x80"
    | "0x80 \<le> code c" "rune_len s = 0"
    | "0x80 \<le> code c" "0 < rune_len s" ?A
    | "0x80 \<le> code c" "0 < rune_len s" "\<not> ?A" ?B
    | "0x80 \<le> code c" "0 < rune_len s" "\<not> ?A" "\<not> ?B"
    by linarith
  then show ?thesis
  proof cases
    case 1
    have "snd (quote_unit s) = t" using 1 by (simp add: s quote_unit.simps)
    with good_unit_ascii [OF 1, of t] show ?thesis by (simp add: s)
  next
    case 2
    then have "quote_unit s = (u_escape 0xFFFD, t)" by (simp add: s quote_unit.simps)
    with good_unit_invalid [of c t] 2 show ?thesis by (simp add: s)
  next
    case 3
    then obtain u where u: "s = CHR 0xE2 # CHR 0x80 # CHR 0xA8 # u"
      by (auto simp: has_prefix_append)
    have "quote_unit s = (u_escape 0x2028, u)" using 3 by (simp add: u quote_unit.simps)
    with good_unit_separator [OF u] show ?thesis by simp
  next
    case 4
    then obtain u where u: "s = CHR 0xE2 # CHR 0x80 # CHR 0xA9 # u"
      by (auto simp: has_prefix_append)
    have "quote_unit s = (u_escape 0x2029, u)" using 4 by (simp add: u quote_unit.simps)
    with good_unit_separator [OF u] show ?thesis by simp
  next
    case 5
    then have "quote_unit s = (take (rune_len s) s, drop (rune_len s) s)"
      by (simp add: s quote_unit.simps del: has_prefix.simps)
    with good_unit_copy [OF s] 5 show ?thesis by simp
  qed
qed

text \<open>Reading back what \<open>Marshal\<close> wrote for a string gives the string, made valid UTF-8.\<close>

theorem scan_quote_body: "scan_string (quote_body s @ CHR 0x22 # r) = Some (to_utf8 s, r)"
proof (induction s rule: quote_body.induct)
  case (1 s)
  show ?case
  proof (cases "s = []")
    case True
    then show ?thesis by (simp add: quote_body.simps scan_string.simps to_utf8.simps)
  next
    case False
    obtain q t where qt: "quote_unit s = (q, t)" by (cases "quote_unit s")
    with good_quote_unit [OF False] have g: "good_unit q s t" by simp
    from g obtain out where out: "\<And>r. string_unit (q @ r) = Some (out, r)"
      "to_utf8 s = out @ to_utf8 t" "q \<noteq> []" "hd q \<noteq> CHR 0x22"
      by (auto simp: good_unit_def)
    have "scan_string (quote_body t @ CHR 0x22 # r) = Some (to_utf8 t, r)"
      using "1.IH" [OF False] by (simp add: qt)
    with False out show ?thesis
      by (subst quote_body.simps) (simp add: qt scan_string.simps [of "q @ _"])
  qed
qed

text \<open>Plain text is written as it is.\<close>

definition plain_char :: "char \<Rightarrow> bool" where
  "plain_char c \<longleftrightarrow> between 0x20 c 0x7F \<and> c \<notin> {CHR 0x22, CHR 0x5C}"

lemma scan_plain:
  "list_all plain_char s \<Longrightarrow> scan_string (s @ CHR 0x22 # r) = Some (s, r)"
proof (induction s)
  case Nil
  show ?case by (simp add: scan_string.simps)
next
  case (Cons c s)
  then have "string_unit (c # s @ CHR 0x22 # r) = Some ([c], s @ CHR 0x22 # r)"
    by (intro string_unit_ascii) (auto simp: plain_char_def between_def)
  with Cons show ?case
    by (subst scan_string.simps) (simp add: plain_char_def)
qed

lemma skip_ws_head:
  "skip_ws (CHR 0x22 # s) = CHR 0x22 # s" "skip_ws (CHR '':'' # s) = CHR '':'' # s"
  "skip_ws (CHR '','' # s) = CHR '','' # s" "skip_ws (CHR ''{'' # s) = CHR ''{'' # s"
  "skip_ws (CHR ''}'' # s) = CHR ''}'' # s" "skip_ws [] = []"
  by (simp_all add: skip_ws_def is_ws_def)

lemma parse_Quote: "parse_json Value d (Quote v @ r) = Some (JStr (to_utf8 v), r)"
  by (simp add: parse_json.simps(1) Quote_def skip_ws_head scan_quote_body)

lemma parse_marshal_members:
  assumes "kvs \<noteq> []"
  shows "parse_json Members d (marshal_members kvs @ CHR ''}'' # r) =
    Some (JObj (map (\<lambda>(k, v). (to_utf8 k, JStr (to_utf8 v))) kvs), r)"
  using assms
proof (induction kvs rule: marshal_members.induct)
  case (2 k v)
  have m: "marshal_members [(k, v)] @ CHR ''}'' # r =
      CHR 0x22 # quote_body k @ CHR 0x22 # CHR '':'' # Quote v @ CHR ''}'' # r"
    by (simp add: Quote_def)
  show ?case
    unfolding m by (subst parse_json.simps) (simp add: skip_ws_head scan_quote_body parse_Quote)
next
  case (3 k v kv kvs)
  let ?t = "marshal_members (kv # kvs) @ CHR ''}'' # r"
  have m: "marshal_members ((k, v) # kv # kvs) @ CHR ''}'' # r =
      CHR 0x22 # quote_body k @ CHR 0x22 # CHR '':'' # Quote v @ CHR '','' # ?t"
    by (simp add: Quote_def)
  have "parse_json Members d ?t =
      Some (JObj (map (\<lambda>(k, v). (to_utf8 k, JStr (to_utf8 v))) (kv # kvs)), r)"
    by (rule "3.IH") simp
  then show ?case
    unfolding m by (subst parse_json.simps)
      (simp add: skip_ws_head scan_quote_body parse_Quote del: marshal_members.simps)
qed simp

text \<open>What \<open>Marshal\<close> writes for a map of strings reads back as its members.\<close>

theorem document_marshal_strings:
  assumes "kvs \<noteq> []"
  shows "json_document (marshal_strings kvs) =
    Some (JObj (map (\<lambda>(k, v). (to_utf8 k, JStr (to_utf8 v))) kvs))"
proof -
  obtain q where q: "marshal_members kvs = CHR 0x22 # q"
    using assms by (cases kvs rule: marshal_members.cases) (simp_all add: Quote_def)
  have "parse_json Members (Suc 0) (marshal_members kvs @ CHR ''}'' # []) =
      Some (JObj (map (\<lambda>(k, v). (to_utf8 k, JStr (to_utf8 v))) kvs), [])"
    by (rule parse_marshal_members [OF assms])
  then show ?thesis
    by (simp add: json_document_def marshal_strings_def parse_json.simps(1) skip_ws_head
        maxNestingDepth_def q)
qed
lemma to_utf8_plain: "list_all plain_char s \<Longrightarrow> to_utf8 s = s"
proof (induction s)
  case Nil
  show ?case by (simp add: to_utf8.simps)
next
  case (Cons c s)
  then show ?case by (simp add: to_utf8_ascii plain_char_def between_def)
qed

end
