(* ===== verification/Hub.thy ===== *)
theory Hub
  imports Config RedisSub GoJson
begin

text \<open>
  \<open>gateway/hub.go\<close>: the broker between Redis and the connected clients.

  The pointers of type \<open>*Client\<close> are numbers, and \<open>heap\<close> holds the structs they point to;
  the Go maps keyed by pointers are sets of them. A handler is a function of the hub's state
  that may panic; the parameter \<open>mgr\<close> is the hub's \<open>channelManager\<close>, \<open>None\<close> for nil, whose
  state the hub's field \<open>manager\<close> holds. A handler that ranges over a Go map takes the
  order of that range as an argument; \<open>ranges\<close> says which orders are possible.
\<close>

section \<open>Close codes and channel names\<close>

definition CloseSessionRevoked :: int where "CloseSessionRevoked = 4401"
definition CloseSlowClient :: int where "CloseSlowClient = 4408"
definition CloseTooManyConnections :: int where "CloseTooManyConnections = 4429"

definition channel_char :: "char \<Rightarrow> bool" where
  "channel_char c \<longleftrightarrow> between 97 c 122 \<or> between 65 c 90 \<or> between 48 c 57 \<or>
     c = CHR ''_'' \<or> c = CHR '':'' \<or> c = CHR ''-''"

text \<open>\<open>^[a-zA-Z0-9_:-]{1,128}$\<close>\<close>

definition channelRegex :: "string \<Rightarrow> bool" where
  "channelRegex s \<longleftrightarrow> 1 \<le> length s \<and> length s \<le> 128 \<and> list_all channel_char s"

definition formatUserID :: "int \<Rightarrow> string" where
  "formatUserID i = FormatInt i"

section \<open>State\<close>

record disconnectReason =
  Code :: int
  Reason :: string

type_synonym cid = nat

text \<open>
  The \<open>Client\<close> struct without its pointers to the connection, the hub and the
  configuration, which the hub does not follow.
\<close>

record client =
  send :: "bytes gochan"
  disconnect :: "disconnectReason gochan"
  userID :: int
  sessionKey :: string
  connectionID :: string
  allowedChannels :: "string set"
  subscribed :: "string set"
  connectedAt :: int

record counter =
  cnt :: "64 word"

definition newCounter :: counter where
  "newCounter = \<lparr>cnt = 0\<rparr>"

definition counter_next :: "counter \<Rightarrow> counter \<times> int" where
  "counter_next k = (let v = cnt k + 1 in (k\<lparr>cnt := v\<rparr>, sint v))"

record subscription =
  sub_client :: cid
  sub_channel :: string

text \<open>
  \<open>spawned\<close> lists the goroutines \<open>deliverFrame\<close> has started that have not yet sent their
  client on \<open>unregister\<close>; \<open>hub_log\<close> is what the hub's logger was given.
\<close>

record 'm hub =
  register :: "cid gochan"
  unregister :: "cid gochan"
  subscribe :: "subscription gochan"
  unsubscribe :: "subscription gochan"
  incoming :: "incomingMessage gochan"
  clients :: "cid set"
  channels :: "string \<rightharpoonup> cid set"
  userClients :: "int \<rightharpoonup> cid set"
  manager :: 'm
  hub_cfg :: config
  hub_log :: "log_rec list"
  heap :: "cid \<Rightarrow> client"
  spawned :: "cid list"

definition NewHub :: "config \<Rightarrow> 'm \<Rightarrow> (cid \<Rightarrow> client) \<Rightarrow> 'm hub" where
  "NewHub cfg m hp =
     \<lparr>register = make_chan 8, unregister = make_chan 8, subscribe = make_chan 32,
      unsubscribe = make_chan 32, incoming = make_chan 256, clients = {},
      channels = Map.empty, userClients = Map.empty, manager = m, hub_cfg = cfg,
      hub_log = [], heap = hp, spawned = []\<rparr>"

definition upd_client :: "cid \<Rightarrow> (client \<Rightarrow> client) \<Rightarrow> 'm hub \<Rightarrow> 'm hub" where
  "upd_client c f h = h\<lparr>heap := (heap h)(c := f (heap h c))\<rparr>"

definition hub_note :: "log_level \<Rightarrow> string \<Rightarrow> (string \<times> log_val) list \<Rightarrow> 'm hub \<Rightarrow> 'm hub" where
  "hub_note l m kvs h =
     h\<lparr>hub_log := hub_log h @ [log_entry l m ((''component'', LString ''hub'') # kvs)]\<rparr>"

section \<open>Signals and frames to one client\<close>

definition disconnectClient :: "cid \<Rightarrow> int \<Rightarrow> string \<Rightarrow> 'm hub \<Rightarrow> 'm hub go" where
  "disconnectClient c co reason h =
     go_bind (try_send \<lparr>Code = co, Reason = reason\<rparr> (disconnect (heap h c))) (\<lambda>(ch, _).
       Inr (upd_client c (\<lambda>k. k\<lparr>disconnect := ch\<rparr>) h))"

definition refuse :: "cid \<Rightarrow> int \<Rightarrow> string \<Rightarrow> 'm hub \<Rightarrow> 'm hub go" where
  "refuse c co reason h =
     disconnectClient c co reason
       (hub_note LevelWarn ''refused client''
         [(''connection_id'', LString (connectionID (heap h c))),
          (''user_id'', LInt (userID (heap h c))), (''reason'', LString reason)] h)"

definition deliverFrame :: "cid \<Rightarrow> bytes \<Rightarrow> 'm hub \<Rightarrow> 'm hub go" where
  "deliverFrame c payload h =
     go_bind (try_send payload (send (heap h c))) (\<lambda>(ch, sent).
       if sent then Inr (upd_client c (\<lambda>k. k\<lparr>send := ch\<rparr>) h)
       else go_bind (disconnectClient c CloseSlowClient ''slow_client'' h) (\<lambda>h'.
              Inr (h'\<lparr>spawned := spawned h' @ [c]\<rparr>)))"

definition error_frame :: "string \<Rightarrow> string \<Rightarrow> bytes" where
  "error_frame channel reason =
     marshal_strings [(''channel'', channel), (''reason'', reason), (''type'', ''error'')]"

definition sendError :: "cid \<Rightarrow> string \<Rightarrow> string \<Rightarrow> 'm hub \<Rightarrow> 'm hub go" where
  "sendError c channel reason h = deliverFrame c (error_frame channel reason) h"

text \<open>\<open>close\<close> under \<open>recover\<close>: a second close is swallowed.\<close>

definition closeChan :: "cid \<Rightarrow> 'm hub \<Rightarrow> 'm hub" where
  "closeChan c h =
     (case close_chan (send (heap h c)) of
        Inl _ \<Rightarrow> h
      | Inr ch \<Rightarrow> upd_client c (\<lambda>k. k\<lparr>send := ch\<rparr>) h)"

section \<open>Channel membership\<close>

definition addSubscription :: "'m channelManager option \<Rightarrow> cid \<Rightarrow> string \<Rightarrow> 'm hub \<Rightarrow> 'm hub" where
  "addSubscription mgr c channel h =
     (if channel \<in> subscribed (heap h c) then h
      else let h1 = upd_client c (\<lambda>k. k\<lparr>subscribed := insert channel (subscribed k)\<rparr>) h;
               firstSubscriber = (channels h1 channel = None);
               h2 = h1\<lparr>channels := (channels h1)(channel \<mapsto> insert c (entry (channels h1 channel)))\<rparr>
           in case mgr of
                None \<Rightarrow> h2
              | Some M \<Rightarrow>
                  if firstSubscriber then
                    (case Subscribe M channel (manager h2) of
                       (m, None) \<Rightarrow> h2\<lparr>manager := m\<rparr>
                     | (m, Some e) \<Rightarrow>
                         hub_note LevelWarn ''redis subscribe failed''
                           [(''channel'', LString channel), (''err'', LError e)] (h2\<lparr>manager := m\<rparr>))
                  else h2)"

definition removeFromChannel :: "'m channelManager option \<Rightarrow> cid \<Rightarrow> string \<Rightarrow> 'm hub \<Rightarrow> 'm hub" where
  "removeFromChannel mgr c channel h =
     (case channels h channel of
        None \<Rightarrow> h
      | Some cs \<Rightarrow>
          if cs - {c} = {} then
            let h1 = h\<lparr>channels := (channels h)(channel := None)\<rparr>
            in case mgr of
                 None \<Rightarrow> h1
               | Some M \<Rightarrow>
                   (case Unsubscribe M channel (manager h1) of
                      (m, None) \<Rightarrow> h1\<lparr>manager := m\<rparr>
                    | (m, Some e) \<Rightarrow>
                        hub_note LevelWarn ''redis unsubscribe failed''
                          [(''channel'', LString channel), (''err'', LError e)] (h1\<lparr>manager := m\<rparr>))
          else h\<lparr>channels := (channels h)(channel \<mapsto> cs - {c})\<rparr>)"

section \<open>Handlers\<close>

definition session_channel :: "string \<Rightarrow> string" where
  "session_channel key = ''_session:'' @ key"

definition user_channel :: "int \<Rightarrow> string" where
  "user_channel u = ''_user:'' @ formatUserID u @ '':revoke''"

definition handleRegister :: "'m channelManager option \<Rightarrow> cid \<Rightarrow> 'm hub \<Rightarrow> 'm hub go" where
  "handleRegister mgr c h =
     (let cfg = hub_cfg h; u = userID (heap h c)
      in if 0 < MaxConnectionsTotal cfg \<and> MaxConnectionsTotal cfg \<le> int (card (clients h))
         then refuse c CloseTooManyConnections ''max_connections_total'' h
         else if 0 < MaxConnectionsPerUser cfg \<and>
                 (case userClients h u of
                    None \<Rightarrow> False
                  | Some existing \<Rightarrow> MaxConnectionsPerUser cfg \<le> int (card existing))
         then refuse c CloseTooManyConnections ''max_connections_per_user'' h
         else
           let h1 = h\<lparr>clients := insert c (clients h)\<rparr>;
               h2 = h1\<lparr>userClients := (userClients h1)(u \<mapsto> insert c (entry (userClients h1 u)))\<rparr>;
               h3 = hub_note LevelInfo ''client registered''
                      [(''connection_id'', LString (connectionID (heap h c))), (''user_id'', LInt u)] h2;
               h4 = addSubscription mgr c (session_channel (sessionKey (heap h3 c))) h3
           in Inr (addSubscription mgr c (user_channel (userID (heap h4 c))) h4))"

text \<open>\<open>ord\<close> is the order in which the client's subscriptions are ranged over.\<close>

definition handleUnregister ::
  "'m channelManager option \<Rightarrow> string list \<Rightarrow> cid \<Rightarrow> 'm hub \<Rightarrow> 'm hub go" where
  "handleUnregister mgr ord c h =
     (if c \<notin> clients h then Inr h
      else
        let h1 = h\<lparr>clients := clients h - {c}\<rparr>;
            u = userID (heap h1 c);
            h2 = h1\<lparr>userClients := (userClients h1)(u := drop_member c (userClients h1 u))\<rparr>;
            h3 = fold (removeFromChannel mgr c) ord h2
        in go_bind (try_send \<lparr>Code = 0, Reason = []\<rparr> (disconnect (heap h3 c))) (\<lambda>(ch, _).
             let h4 = closeChan c (upd_client c (\<lambda>k. k\<lparr>disconnect := ch\<rparr>) h3)
             in Inr (hub_note LevelInfo ''client unregistered''
                  [(''connection_id'', LString (connectionID (heap h4 c))), (''user_id'', LInt u)] h4)))"

definition handleClientSubscribe ::
  "'m channelManager option \<Rightarrow> subscription \<Rightarrow> 'm hub \<Rightarrow> 'm hub go" where
  "handleClientSubscribe mgr s h =
     (let c = sub_client s; channel = sub_channel s
      in if c \<notin> clients h then Inr h
         else if \<not> channelRegex channel \<or> channel ! 0 = CHR ''_''
         then sendError c channel ''invalid_channel'' h
         else if channel \<notin> allowedChannels (heap h c) then sendError c channel ''forbidden'' h
         else Inr (addSubscription mgr c channel h))"

definition handleClientUnsubscribe ::
  "'m channelManager option \<Rightarrow> subscription \<Rightarrow> 'm hub \<Rightarrow> 'm hub" where
  "handleClientUnsubscribe mgr s h =
     (let c = sub_client s; channel = sub_channel s
      in if c \<notin> clients h then h
         else if channel \<notin> subscribed (heap h c) then h
         else removeFromChannel mgr c channel
                (upd_client c (\<lambda>k. k\<lparr>subscribed := subscribed k - {channel}\<rparr>) h))"

text \<open>The anonymous struct of \<open>controlPayload\<close> and how \<open>Unmarshal\<close> fills it.\<close>

record controlPayload =
  cp_Type :: string
  cp_Reason :: string

definition payload_field :: "string \<Rightarrow> json \<Rightarrow> controlPayload \<Rightarrow> controlPayload option" where
  "payload_field k v p =
     (if is_field ''type'' k then map_option (\<lambda>s. p\<lparr>cp_Type := s\<rparr>) (decode_string v (cp_Type p))
      else if is_field ''reason'' k then map_option (\<lambda>s. p\<lparr>cp_Reason := s\<rparr>) (decode_string v (cp_Reason p))
      else Some p)"

definition control_field :: "string \<Rightarrow> json \<Rightarrow> controlPayload \<Rightarrow> controlPayload option" where
  "control_field k v p = (if is_field ''payload'' k then decode_struct payload_field v p else Some p)"

definition parse_control :: "bytes \<Rightarrow> controlPayload option" where
  "parse_control data = Unmarshal control_field data \<lparr>cp_Type = [], cp_Reason = []\<rparr>"

text \<open>\<open>ord\<close> is the order in which the clients on the message's channel are ranged over.\<close>

definition handleControlMessage :: "cid list \<Rightarrow> incomingMessage \<Rightarrow> 'm hub \<Rightarrow> 'm hub go" where
  "handleControlMessage ord m h =
     (case parse_control (Payload m) of
        None \<Rightarrow> Inr (hub_note LevelWarn ''control message: malformed'' [(''channel'', LString (Channel m))] h)
      | Some parsed \<Rightarrow>
          if cp_Type parsed \<noteq> ''revoke'' then Inr h
          else go_range (\<lambda>c. disconnectClient c CloseSessionRevoked ''session_revoked'') ord h)"

definition handleIncoming :: "cid list \<Rightarrow> incomingMessage \<Rightarrow> 'm hub \<Rightarrow> 'm hub go" where
  "handleIncoming ord m h =
     (if 0 < length (Channel m) \<and> Channel m ! 0 = CHR ''_'' then handleControlMessage ord m h
      else go_range (\<lambda>c. deliverFrame c (Payload m)) ord h)"

section \<open>The loop\<close>

text \<open>
  One turn of \<open>Run\<close>: \<open>select\<close> takes any of the five channels that has a value. (Its other
  case, a cancelled context, ends the loop: no step.)
\<close>

inductive run_step :: "'m channelManager option \<Rightarrow> 'm hub \<Rightarrow> 'm hub go \<Rightarrow> bool"
  for mgr :: "'m channelManager option" where
  run_register:
    "recv_chan (register h) = Received c ch \<Longrightarrow>
       run_step mgr h (handleRegister mgr c (h\<lparr>register := ch\<rparr>))"
| run_unregister:
    "recv_chan (unregister h) = Received c ch \<Longrightarrow>
       (c \<in> clients h \<longrightarrow> ranges ord (subscribed (heap h c))) \<Longrightarrow>
       run_step mgr h (handleUnregister mgr ord c (h\<lparr>unregister := ch\<rparr>))"
| run_subscribe:
    "recv_chan (subscribe h) = Received s sch \<Longrightarrow>
       run_step mgr h (handleClientSubscribe mgr s (h\<lparr>subscribe := sch\<rparr>))"
| run_unsubscribe:
    "recv_chan (unsubscribe h) = Received s sch \<Longrightarrow>
       run_step mgr h (Inr (handleClientUnsubscribe mgr s (h\<lparr>unsubscribe := sch\<rparr>)))"
| run_incoming:
    "recv_chan (incoming h) = Received m mch \<Longrightarrow> ranges ord (entry (channels h (Channel m))) \<Longrightarrow>
       run_step mgr h (handleIncoming ord m (h\<lparr>incoming := mch\<rparr>))"

end
