(* ===== verification/HubFacts.thy ===== *)
theory HubFacts
  imports Hub
begin

text \<open>
  The hub's invariant and what each handler does to it. The Go maps \<open>channels\<close> and
  \<open>userClients\<close> are indices: under \<open>hub_inv\<close> they hold exactly what the clients' own
  \<open>subscribed\<close> sets and user ids say, so each handler is described by what it does to the
  set of clients and to their structs. No handler panics, and \<open>run_step_safe\<close> puts them
  together for the loop.
\<close>

section \<open>What the operations leave alone\<close>

lemma upd_client_simps [simp]:
  "register (upd_client c f h) = register h" "unregister (upd_client c f h) = unregister h"
  "subscribe (upd_client c f h) = subscribe h" "unsubscribe (upd_client c f h) = unsubscribe h"
  "incoming (upd_client c f h) = incoming h" "clients (upd_client c f h) = clients h"
  "channels (upd_client c f h) = channels h" "userClients (upd_client c f h) = userClients h"
  "manager (upd_client c f h) = manager h" "hub_cfg (upd_client c f h) = hub_cfg h"
  "hub_log (upd_client c f h) = hub_log h" "spawned (upd_client c f h) = spawned h"
  "heap (upd_client c f h) = (heap h)(c := f (heap h c))"
  by (simp_all add: upd_client_def)

lemma hub_note_simps [simp]:
  "register (hub_note l m kvs h) = register h" "unregister (hub_note l m kvs h) = unregister h"
  "subscribe (hub_note l m kvs h) = subscribe h" "unsubscribe (hub_note l m kvs h) = unsubscribe h"
  "incoming (hub_note l m kvs h) = incoming h" "clients (hub_note l m kvs h) = clients h"
  "channels (hub_note l m kvs h) = channels h" "userClients (hub_note l m kvs h) = userClients h"
  "manager (hub_note l m kvs h) = manager h" "hub_cfg (hub_note l m kvs h) = hub_cfg h"
  "heap (hub_note l m kvs h) = heap h" "spawned (hub_note l m kvs h) = spawned h"
  "hub_log (hub_note l m kvs h) =
     hub_log h @ [log_entry l m ((''component'', LString ''hub'') # kvs)]"
  by (simp_all add: hub_note_def)

lemma removeFromChannel_frame [frame, simp]:
  "register (removeFromChannel mgr c ch h) = register h"
  "unregister (removeFromChannel mgr c ch h) = unregister h"
  "subscribe (removeFromChannel mgr c ch h) = subscribe h"
  "unsubscribe (removeFromChannel mgr c ch h) = unsubscribe h"
  "incoming (removeFromChannel mgr c ch h) = incoming h"
  "clients (removeFromChannel mgr c ch h) = clients h"
  "userClients (removeFromChannel mgr c ch h) = userClients h"
  "hub_cfg (removeFromChannel mgr c ch h) = hub_cfg h"
  "heap (removeFromChannel mgr c ch h) = heap h"
  "spawned (removeFromChannel mgr c ch h) = spawned h"
  by (simp_all add: removeFromChannel_def Let_def split: option.split prod.split)

lemma removeFromChannel_channels:
  "channels (removeFromChannel mgr c ch h) = (channels h)(ch := drop_member c (channels h ch))"
  by (auto simp: removeFromChannel_def Let_def idx_def fun_eq_iff split: option.split prod.split)

lemma addSubscription_frame [frame, simp]:
  "register (addSubscription mgr c ch h) = register h"
  "unregister (addSubscription mgr c ch h) = unregister h"
  "subscribe (addSubscription mgr c ch h) = subscribe h"
  "unsubscribe (addSubscription mgr c ch h) = unsubscribe h"
  "incoming (addSubscription mgr c ch h) = incoming h"
  "clients (addSubscription mgr c ch h) = clients h"
  "userClients (addSubscription mgr c ch h) = userClients h"
  "hub_cfg (addSubscription mgr c ch h) = hub_cfg h"
  "spawned (addSubscription mgr c ch h) = spawned h"
  by (simp_all add: addSubscription_def Let_def split: option.split prod.split)

lemma addSubscription_heap [simp]:
  "heap (addSubscription mgr c ch h) =
     (heap h)(c := (heap h c)\<lparr>subscribed := insert ch (subscribed (heap h c))\<rparr>)"
  by (auto simp: addSubscription_def Let_def insert_absorb fun_eq_iff split: option.split prod.split)

lemma addSubscription_channels:
  "channels (addSubscription mgr c ch h) =
     (if ch \<in> subscribed (heap h c) then channels h
      else (channels h)(ch \<mapsto> insert c (entry (channels h ch))))"
  by (auto simp: addSubscription_def Let_def split: option.split prod.split)

lemma fold_removeFromChannel_frame [frame, simp]:
  "register (fold (removeFromChannel mgr c) xs h) = register h"
  "unregister (fold (removeFromChannel mgr c) xs h) = unregister h"
  "subscribe (fold (removeFromChannel mgr c) xs h) = subscribe h"
  "unsubscribe (fold (removeFromChannel mgr c) xs h) = unsubscribe h"
  "incoming (fold (removeFromChannel mgr c) xs h) = incoming h"
  "clients (fold (removeFromChannel mgr c) xs h) = clients h"
  "userClients (fold (removeFromChannel mgr c) xs h) = userClients h"
  "hub_cfg (fold (removeFromChannel mgr c) xs h) = hub_cfg h"
  "heap (fold (removeFromChannel mgr c) xs h) = heap h"
  "spawned (fold (removeFromChannel mgr c) xs h) = spawned h"
  by (induction xs arbitrary: h) simp_all

lemma fold_removeFromChannel_channels:
  "channels (fold (removeFromChannel mgr c) xs h) =
     (\<lambda>ch. if ch \<in> set xs then drop_member c (channels h ch) else channels h ch)"
  by (induction xs arbitrary: h) (auto simp: removeFromChannel_channels fun_eq_iff)

lemma closeChan_frame [frame, simp]:
  "register (closeChan c h) = register h" "unregister (closeChan c h) = unregister h"
  "subscribe (closeChan c h) = subscribe h" "unsubscribe (closeChan c h) = unsubscribe h"
  "incoming (closeChan c h) = incoming h" "clients (closeChan c h) = clients h"
  "channels (closeChan c h) = channels h" "userClients (closeChan c h) = userClients h"
  "manager (closeChan c h) = manager h" "hub_cfg (closeChan c h) = hub_cfg h"
  "hub_log (closeChan c h) = hub_log h" "spawned (closeChan c h) = spawned h"
  by (simp_all add: closeChan_def split: sum.split)

lemma closeChan_heap [simp]:
  "heap (closeChan c h) = (heap h)(c := (heap h c)\<lparr>send := (send (heap h c))\<lparr>closed := True\<rparr>\<rparr>)"
  by (auto simp: closeChan_def close_chan_def fun_eq_iff)


section \<open>Effects on open clients\<close>

definition open_client :: "client \<Rightarrow> bool" where
  "open_client k \<longleftrightarrow> \<not> closed (send k) \<and> \<not> closed (disconnect k)"

definition signal :: "int \<Rightarrow> string \<Rightarrow> client \<Rightarrow> client" where
  "signal co r k = k\<lparr>disconnect := offer \<lparr>Code = co, Reason = r\<rparr> (disconnect k)\<rparr>"

definition delivered :: "bytes \<Rightarrow> client \<Rightarrow> client" where
  "delivered p k =
     (if has_room (send k) then k\<lparr>send := offer p (send k)\<rparr>
      else signal CloseSlowClient ''slow_client'' k)"

lemma disconnectClient_open:
  "\<not> closed (disconnect (heap h c)) \<Longrightarrow>
     disconnectClient c co r h = Inr (upd_client c (signal co r) h)"
  by (simp add: disconnectClient_def try_send_offer upd_client_def signal_def)

lemma refuse_open:
  "\<not> closed (disconnect (heap h c)) \<Longrightarrow>
     refuse c co r h = Inr (upd_client c (signal co r)
       (hub_note LevelWarn ''refused client''
         [(''connection_id'', LString (connectionID (heap h c))),
          (''user_id'', LInt (userID (heap h c))), (''reason'', LString r)] h))"
  by (simp add: refuse_def disconnectClient_open)

lemma deliverFrame_open:
  assumes "open_client (heap h c)"
  shows "deliverFrame c p h =
    Inr ((upd_client c (delivered p) h)
      \<lparr>spawned := spawned h @ (if has_room (send (heap h c)) then [] else [c])\<rparr>)"
proof -
  have "h\<lparr>heap := x\<rparr> = h\<lparr>heap := x, spawned := spawned h\<rparr>" for x by (cases h) simp
  then show ?thesis
    using assms
    by (auto simp: deliverFrame_def open_client_def try_send_offer disconnectClient_open
        upd_client_def delivered_def)
qed

lemma signal_simps [simp]:
  "send (signal co r k) = send k" "userID (signal co r k) = userID k"
  "sessionKey (signal co r k) = sessionKey k" "connectionID (signal co r k) = connectionID k"
  "allowedChannels (signal co r k) = allowedChannels k" "subscribed (signal co r k) = subscribed k"
  by (simp_all add: signal_def)

lemma delivered_simps [simp]:
  "userID (delivered p k) = userID k" "sessionKey (delivered p k) = sessionKey k"
  "connectionID (delivered p k) = connectionID k"
  "allowedChannels (delivered p k) = allowedChannels k" "subscribed (delivered p k) = subscribed k"
  by (simp_all add: delivered_def)

text \<open>Ranges over distinct open clients, in any order.\<close>

lemma range_deliver:
  assumes "distinct xs" and "\<forall>c \<in> set xs. open_client (heap h c)"
  shows "go_range (\<lambda>c. deliverFrame c p) xs h =
    Inr (h\<lparr>heap := (\<lambda>c. if c \<in> set xs then delivered p (heap h c) else heap h c),
           spawned := spawned h @ filter (\<lambda>c. \<not> has_room (send (heap h c))) xs\<rparr>)"
  using assms
proof (induction xs arbitrary: h)
  case Nil
  then show ?case by simp
next
  case (Cons c xs)
  let ?h = "(upd_client c (delivered p) h)
      \<lparr>spawned := spawned h @ (if has_room (send (heap h c)) then [] else [c])\<rparr>"
  have c: "deliverFrame c p h = Inr ?h" using Cons.prems by (intro deliverFrame_open) simp
  have "heap ?h x = heap h x" if "x \<in> set xs" for x using that Cons.prems(1) by auto
  then have "go_range (\<lambda>c. deliverFrame c p) xs ?h =
      Inr (?h\<lparr>heap := (\<lambda>c. if c \<in> set xs then delivered p (heap ?h c) else heap ?h c),
           spawned := spawned ?h @ filter (\<lambda>c. \<not> has_room (send (heap ?h c))) xs\<rparr>)"
    using Cons.prems by (intro Cons.IH) auto
  moreover have "filter (\<lambda>c. \<not> has_room (send (heap ?h c))) xs =
      filter (\<lambda>c. \<not> has_room (send (heap h c))) xs"
    using Cons.prems(1) by (intro filter_cong) auto
  ultimately show ?case
    using Cons.prems(1) by (auto simp: c upd_client_def fun_eq_iff intro!: ext)
qed

lemma range_disconnect:
  assumes "distinct xs" and "\<forall>c \<in> set xs. \<not> closed (disconnect (heap h c))"
  shows "go_range (\<lambda>c. disconnectClient c co r) xs h =
    Inr (h\<lparr>heap := (\<lambda>c. if c \<in> set xs then signal co r (heap h c) else heap h c)\<rparr>)"
  using assms
proof (induction xs arbitrary: h)
  case Nil
  then show ?case by simp
next
  case (Cons c xs)
  let ?h = "upd_client c (signal co r) h"
  have "heap ?h x = heap h x" if "x \<in> set xs" for x using that Cons.prems(1) by auto
  then have "go_range (\<lambda>c. disconnectClient c co r) xs ?h =
      Inr (?h\<lparr>heap := (\<lambda>c. if c \<in> set xs then signal co r (heap ?h c) else heap ?h c)\<rparr>)"
    using Cons.prems by (intro Cons.IH) auto
  then show ?case
    using Cons.prems
    by (auto simp: disconnectClient_open upd_client_def fun_eq_iff intro!: ext)
qed

section \<open>The invariant\<close>

text \<open>What a client may be subscribed to: its two control channels and what Django allowed.\<close>

definition control_channels :: "client \<Rightarrow> string set" where
  "control_channels k = {session_channel (sessionKey k), user_channel (userID k)}"

definition may_hold :: "client \<Rightarrow> string \<Rightarrow> bool" where
  "may_hold k ch \<longleftrightarrow> ch \<in> control_channels k \<or>
     ch \<in> allowedChannels k \<and> channelRegex ch \<and> ch ! 0 \<noteq> CHR ''_''"

definition members :: "'m hub \<Rightarrow> string \<Rightarrow> cid set" where
  "members h ch = {c \<in> clients h. ch \<in> subscribed (heap h c)}"

definition owned :: "'m hub \<Rightarrow> int \<Rightarrow> cid set" where
  "owned h u = {c \<in> clients h. userID (heap h c) = u}"

definition hub_inv :: "'m hub \<Rightarrow> bool" where
  "hub_inv h \<longleftrightarrow>
     finite (clients h) \<and>
     (\<forall>u. userClients h u = idx (owned h u)) \<and>
     (\<forall>ch. channels h ch = idx (members h ch)) \<and>
     (\<forall>c \<in> clients h. open_client (heap h c) \<and> finite (subscribed (heap h c)) \<and>
        (\<forall>ch \<in> subscribed (heap h c). may_hold (heap h c) ch))"

text \<open>Changes of a client's queues leave the invariant alone.\<close>

definition same_client :: "client \<Rightarrow> client \<Rightarrow> bool" where
  "same_client k k' \<longleftrightarrow> userID k' = userID k \<and> sessionKey k' = sessionKey k \<and>
     connectionID k' = connectionID k \<and> allowedChannels k' = allowedChannels k \<and>
     subscribed k' = subscribed k \<and> connectedAt k' = connectedAt k \<and>
     closed (send k') = closed (send k) \<and> closed (disconnect k') = closed (disconnect k) \<and>
     cap (send k') = cap (send k) \<and> cap (disconnect k') = cap (disconnect k)"

lemma same_client_refl [simp]: "same_client k k"
  by (simp add: same_client_def)

lemma same_client_signal [simp]: "same_client k (signal co r k)"
  by (simp add: same_client_def signal_def)

lemma same_client_delivered [simp]: "same_client k (delivered p k)"
  by (simp add: same_client_def delivered_def signal_def)

lemma same_client_may_hold: "same_client k k' \<Longrightarrow> may_hold k' ch = may_hold k ch"
  by (simp add: same_client_def may_hold_def control_channels_def)

lemma hub_inv_same:
  assumes "hub_inv h" and "clients h' = clients h" "userClients h' = userClients h"
    "channels h' = channels h" and same: "\<And>c. same_client (heap h c) (heap h' c)"
  shows "hub_inv h'"
proof -
  have k: "userID (heap h' c) = userID (heap h c)" "subscribed (heap h' c) = subscribed (heap h c)"
    "open_client (heap h' c) = open_client (heap h c)" "may_hold (heap h' c) = may_hold (heap h c)" for c
    using same [of c] same_client_may_hold [OF same [of c]]
    by (auto simp: same_client_def open_client_def)
  show ?thesis
    using assms(1) unfolding hub_inv_def members_def owned_def assms(2-4) k .
qed


lemma hub_inv_members: "hub_inv h \<Longrightarrow> channels h ch = idx (members h ch)"
  by (simp add: hub_inv_def)

lemma hub_inv_owned: "hub_inv h \<Longrightarrow> userClients h u = idx (owned h u)"
  by (simp add: hub_inv_def)

lemma hub_inv_client:
  "hub_inv h \<Longrightarrow> c \<in> clients h \<Longrightarrow> open_client (heap h c)"
  "hub_inv h \<Longrightarrow> c \<in> clients h \<Longrightarrow> finite (subscribed (heap h c))"
  "hub_inv h \<Longrightarrow> c \<in> clients h \<Longrightarrow> ch \<in> subscribed (heap h c) \<Longrightarrow> may_hold (heap h c) ch"
  by (simp_all add: hub_inv_def)

lemma hub_inv_finite: "hub_inv h \<Longrightarrow> finite (clients h)"
  by (simp add: hub_inv_def)

lemma members_clients: "c \<in> members h ch \<Longrightarrow> c \<in> clients h"
  by (simp add: members_def)

lemma hub_inv_new: "hub_inv (NewHub cfg m hp)"
  by (simp add: hub_inv_def NewHub_def members_def owned_def idx_def)

lemma session_user_distinct [simp]:
  "session_channel k \<noteq> user_channel u" "user_channel u \<noteq> session_channel k"
  by (simp_all add: session_channel_def user_channel_def)

section \<open>Register\<close>

definition fresh_client :: "cid \<Rightarrow> 'm hub \<Rightarrow> bool" where
  "fresh_client c h \<longleftrightarrow> c \<notin> clients h \<and> open_client (heap h c) \<and> subscribed (heap h c) = {}"

text \<open>The caps, over the set of clients and the set of a user's clients.\<close>

definition total_full :: "'m hub \<Rightarrow> bool" where
  "total_full h \<longleftrightarrow> 0 < MaxConnectionsTotal (hub_cfg h) \<and>
     MaxConnectionsTotal (hub_cfg h) \<le> int (card (clients h))"

definition user_full :: "'m hub \<Rightarrow> int \<Rightarrow> bool" where
  "user_full h u \<longleftrightarrow> 0 < MaxConnectionsPerUser (hub_cfg h) \<and>
     MaxConnectionsPerUser (hub_cfg h) \<le> int (card (owned h u))"

definition registered :: "'m channelManager option \<Rightarrow> cid \<Rightarrow> 'm hub \<Rightarrow> 'm hub" where
  "registered mgr c h =
     (let k = heap h c
      in addSubscription mgr c (user_channel (userID k))
          (addSubscription mgr c (session_channel (sessionKey k))
            (hub_note LevelInfo ''client registered''
              [(''connection_id'', LString (connectionID k)), (''user_id'', LInt (userID k))]
              (h\<lparr>clients := insert c (clients h),
                 userClients := (userClients h)
                   (userID k \<mapsto> insert c (entry (userClients h (userID k))))\<rparr>))))"

lemma handleRegister_cases:
  assumes "hub_inv h"
  shows "handleRegister mgr c h =
    (if total_full h then refuse c CloseTooManyConnections ''max_connections_total'' h
     else if user_full h (userID (heap h c))
     then refuse c CloseTooManyConnections ''max_connections_per_user'' h
     else Inr (registered mgr c h))"
  using hub_inv_owned [OF assms]
  by (auto simp: handleRegister_def Let_def total_full_def user_full_def registered_def
      split: option.splits if_splits)

lemma registered_frame [frame, simp]:
  "register (registered mgr c h) = register h" "unregister (registered mgr c h) = unregister h"
  "subscribe (registered mgr c h) = subscribe h" "unsubscribe (registered mgr c h) = unsubscribe h"
  "incoming (registered mgr c h) = incoming h" "hub_cfg (registered mgr c h) = hub_cfg h"
  "spawned (registered mgr c h) = spawned h" "clients (registered mgr c h) = insert c (clients h)"
  "userClients (registered mgr c h) = (userClients h)
     (userID (heap h c) \<mapsto> insert c (entry (userClients h (userID (heap h c)))))"
  "heap (registered mgr c h) = (heap h)
     (c := (heap h c)\<lparr>subscribed := control_channels (heap h c) \<union> subscribed (heap h c)\<rparr>)"
  by (auto simp: registered_def Let_def control_channels_def insert_commute)

lemma registered_channels:
  assumes "subscribed (heap h c) = {}"
  shows "channels (registered mgr c h) =
    (\<lambda>ch. if ch \<in> control_channels (heap h c) then Some (insert c (entry (channels h ch)))
          else channels h ch)"
  using assms by (auto simp: registered_def Let_def addSubscription_channels control_channels_def fun_eq_iff)

lemma hub_inv_registered:
  assumes inv: "hub_inv h" and new: "fresh_client c h"
  shows "hub_inv (registered mgr c h)"
proof -
  let ?h = "registered mgr c h" and ?k = "heap h c"
  have s: "subscribed ?k = {}" and c: "c \<notin> clients h" using new by (simp_all add: fresh_client_def)
  have "members ?h ch = (if ch \<in> control_channels ?k then insert c (members h ch) else members h ch)" for ch
    using s c by (auto simp: members_def)
  then have m: "channels ?h ch = idx (members ?h ch)" for ch
    using hub_inv_members [OF inv] by (simp add: registered_channels s)
  have "owned ?h u = (if u = userID ?k then insert c (owned h u) else owned h u)" for u
    using c by (auto simp: owned_def)
  then have ow: "userClients ?h u = idx (owned ?h u)" for u
    using hub_inv_owned [OF inv] by simp
  have "open_client (heap ?h x) \<and> finite (subscribed (heap ?h x)) \<and>
      (\<forall>ch \<in> subscribed (heap ?h x). may_hold (heap ?h x) ch)" if "x \<in> clients ?h" for x
  proof (cases "x = c")
    case True
    then show ?thesis using new
      by (auto simp: fresh_client_def open_client_def may_hold_def control_channels_def)
  next
    case False
    then show ?thesis using that inv by (simp add: hub_inv_client)
  qed
  with m ow show ?thesis using hub_inv_finite [OF inv] by (simp add: hub_inv_def)
qed


section \<open>Unregister\<close>

text \<open>The struct of a client the hub has let go of.\<close>

definition released :: "client \<Rightarrow> client" where
  "released k = (signal 0 [] k)\<lparr>send := (send k)\<lparr>closed := True\<rparr>\<rparr>"

definition unregistered :: "'m channelManager option \<Rightarrow> string list \<Rightarrow> cid \<Rightarrow> 'm hub \<Rightarrow> 'm hub" where
  "unregistered mgr ord c h =
     hub_note LevelInfo ''client unregistered''
       [(''connection_id'', LString (connectionID (heap h c))), (''user_id'', LInt (userID (heap h c)))]
       (upd_client c released (fold (removeFromChannel mgr c) ord
         (h\<lparr>clients := clients h - {c},
            userClients := (userClients h)
              (userID (heap h c) := drop_member c (userClients h (userID (heap h c))))\<rparr>)))"

lemma closeChan_open:
  "\<not> closed (send (heap h c)) \<Longrightarrow>
     closeChan c h = upd_client c (\<lambda>k. k\<lparr>send := (send k)\<lparr>closed := True\<rparr>\<rparr>) h"
  by (simp add: closeChan_def close_chan_def upd_client_def)

lemma upd_client_twice: "upd_client c g (upd_client c f h) = upd_client c (\<lambda>k. g (f k)) h"
  by (simp add: upd_client_def)

lemma upd_client_cong: "f (heap h c) = g (heap h c) \<Longrightarrow> upd_client c f h = upd_client c g h"
  by (simp add: upd_client_def)

lemma handleUnregister_cases:
  assumes "c \<in> clients h \<Longrightarrow> open_client (heap h c)"
  shows "handleUnregister mgr ord c h = Inr (if c \<in> clients h then unregistered mgr ord c h else h)"
proof (cases "c \<in> clients h")
  case False
  then show ?thesis by (simp add: handleUnregister_def)
next
  case True
  let ?d = "h\<lparr>clients := clients h - {c}\<rparr>"
  let ?h = "fold (removeFromChannel mgr c) ord
    (?d\<lparr>userClients := (userClients h)
      (userID (heap h c) := drop_member c (userClients h (userID (heap h c))))\<rparr>)"
  have "open_client (heap ?h c)" using assms True by simp
  then have "handleUnregister mgr ord c h = Inr (hub_note LevelInfo ''client unregistered''
      [(''connection_id'', LString (connectionID (heap h c))), (''user_id'', LInt (userID (heap h c)))]
      (upd_client c (\<lambda>k. k\<lparr>disconnect := offer \<lparr>Code = 0, Reason = []\<rparr> (disconnect (heap ?h c)),
         send := (send k)\<lparr>closed := True\<rparr>\<rparr>) ?h))"
    using True
    by (simp add: handleUnregister_def Let_def open_client_def try_send_offer closeChan_open
        upd_client_twice)
  also have "upd_client c (\<lambda>k. k\<lparr>disconnect := offer \<lparr>Code = 0, Reason = []\<rparr> (disconnect (heap ?h c)),
      send := (send k)\<lparr>closed := True\<rparr>\<rparr>) ?h = upd_client c released ?h"
    by (rule upd_client_cong) (simp add: released_def signal_def)
  finally show ?thesis using True by (simp add: unregistered_def)
qed

lemma unregistered_frame [frame, simp]:
  "register (unregistered mgr ord c h) = register h"
  "unregister (unregistered mgr ord c h) = unregister h"
  "subscribe (unregistered mgr ord c h) = subscribe h"
  "unsubscribe (unregistered mgr ord c h) = unsubscribe h"
  "incoming (unregistered mgr ord c h) = incoming h" "hub_cfg (unregistered mgr ord c h) = hub_cfg h"
  "spawned (unregistered mgr ord c h) = spawned h" "clients (unregistered mgr ord c h) = clients h - {c}"
  "userClients (unregistered mgr ord c h) = (userClients h)
     (userID (heap h c) := drop_member c (userClients h (userID (heap h c))))"
  "heap (unregistered mgr ord c h) = (heap h)(c := released (heap h c))"
  "channels (unregistered mgr ord c h) =
     (\<lambda>ch. if ch \<in> set ord then drop_member c (channels h ch) else channels h ch)"
  by (auto simp: unregistered_def fold_removeFromChannel_channels)

lemma hub_inv_unregistered:
  assumes inv: "hub_inv h" and ord: "set ord = subscribed (heap h c)"
  shows "hub_inv (unregistered mgr ord c h)"
proof -
  let ?h = "unregistered mgr ord c h"
  have "members ?h ch = members h ch - {c}" for ch by (auto simp: members_def)
  moreover have "members h ch - {c} = members h ch" if "ch \<notin> subscribed (heap h c)" for ch
    using that by (auto simp: members_def)
  ultimately have m: "channels ?h ch = idx (members ?h ch)" for ch
    using hub_inv_members [OF inv] by (simp add: ord drop_member_idx)
  have "owned ?h u = owned h u - {c}" for u by (auto simp: owned_def released_def signal_def)
  moreover have "owned h u - {c} = owned h u" if "u \<noteq> userID (heap h c)" for u
    using that by (auto simp: owned_def)
  ultimately have ow: "userClients ?h u = idx (owned ?h u)" for u
    using hub_inv_owned [OF inv] by (simp add: drop_member_idx)
  show ?thesis
    using m ow hub_inv_finite [OF inv] hub_inv_client [OF inv] by (simp add: hub_inv_def)
qed

section \<open>Subscribe and unsubscribe\<close>

definition valid_channel :: "string \<Rightarrow> bool" where
  "valid_channel ch \<longleftrightarrow> channelRegex ch \<and> ch ! 0 \<noteq> CHR ''_''"

lemma handleClientSubscribe_cases:
  "handleClientSubscribe mgr s h =
    (let c = sub_client s; ch = sub_channel s
     in if c \<notin> clients h then Inr h
        else if \<not> valid_channel ch then sendError c ch ''invalid_channel'' h
        else if ch \<notin> allowedChannels (heap h c) then sendError c ch ''forbidden'' h
        else Inr (addSubscription mgr c ch h))"
  by (auto simp: handleClientSubscribe_def valid_channel_def Let_def)

lemma hub_inv_deliverFrame:
  assumes inv: "hub_inv h" and c: "c \<in> clients h"
  shows "go_ok hub_inv (deliverFrame c p h)"
proof -
  let ?h = "(upd_client c (delivered p) h)
      \<lparr>spawned := spawned h @ (if has_room (send (heap h c)) then [] else [c])\<rparr>"
  have "hub_inv ?h" by (rule hub_inv_same [OF inv]) (simp_all add: upd_client_def)
  then show ?thesis using deliverFrame_open [OF hub_inv_client(1) [OF inv c]] by simp
qed

lemma hub_inv_addSubscription:
  assumes inv: "hub_inv h" and c: "c \<in> clients h" and hold: "may_hold (heap h c) ch"
  shows "hub_inv (addSubscription mgr c ch h)"
proof -
  let ?h = "addSubscription mgr c ch h"
  have "members ?h x = (if x = ch then insert c (members h x) else members h x)" for x
    using c by (auto simp: members_def)
  moreover have "c \<in> members h ch" if "ch \<in> subscribed (heap h c)" using that c by (simp add: members_def)
  ultimately have m: "channels ?h x = idx (members ?h x)" for x
    using hub_inv_members [OF inv] by (auto simp: addSubscription_channels insert_absorb)
  have "owned ?h u = owned h u" for u by (auto simp: owned_def)
  then have ow: "userClients ?h u = idx (owned ?h u)" for u using hub_inv_owned [OF inv] by simp
  have "open_client (heap ?h x) \<and> finite (subscribed (heap ?h x)) \<and>
      (\<forall>d \<in> subscribed (heap ?h x). may_hold (heap ?h x) d)" if "x \<in> clients ?h" for x
    using that hub_inv_client [OF inv, of x] hold
    by (auto simp: open_client_def may_hold_def control_channels_def)
  with m ow show ?thesis using hub_inv_finite [OF inv] by (simp add: hub_inv_def)
qed

lemma hub_inv_handleClientSubscribe:
  assumes "hub_inv h"
  shows "go_ok hub_inv (handleClientSubscribe mgr s h)"
  using assms hub_inv_deliverFrame [OF assms] hub_inv_addSubscription [OF assms]
  by (auto simp: handleClientSubscribe_cases Let_def sendError_def may_hold_def valid_channel_def)

lemma handleClientUnsubscribe_cases:
  "handleClientUnsubscribe mgr s h =
    (let c = sub_client s; ch = sub_channel s
     in if c \<in> clients h \<and> ch \<in> subscribed (heap h c)
        then removeFromChannel mgr c ch
               (upd_client c (\<lambda>k. k\<lparr>subscribed := subscribed k - {ch}\<rparr>) h)
        else h)"
  by (simp add: handleClientUnsubscribe_def Let_def)

lemma hub_inv_handleClientUnsubscribe:
  assumes inv: "hub_inv h"
  shows "hub_inv (handleClientUnsubscribe mgr s h)"
proof (cases "sub_client s \<in> clients h \<and> sub_channel s \<in> subscribed (heap h (sub_client s))")
  case False
  then show ?thesis using inv by (auto simp: handleClientUnsubscribe_cases Let_def)
next
  case True
  let ?c = "sub_client s" and ?ch = "sub_channel s" and ?h = "handleClientUnsubscribe mgr s h"
  have h: "?h = removeFromChannel mgr ?c ?ch
      (upd_client ?c (\<lambda>k. k\<lparr>subscribed := subscribed k - {?ch}\<rparr>) h)"
    using True by (simp add: handleClientUnsubscribe_cases Let_def)
  have "members ?h x = (if x = ?ch then members h x - {?c} else members h x)" for x
    by (auto simp: members_def h)
  then have m: "channels ?h x = idx (members ?h x)" for x
    using hub_inv_members [OF inv] by (simp add: h removeFromChannel_channels drop_member_idx)
  have "owned ?h u = owned h u" for u by (auto simp: owned_def h)
  then have ow: "userClients ?h u = idx (owned ?h u)" for u using hub_inv_owned [OF inv] by (simp add: h)
  have "open_client (heap ?h x) \<and> finite (subscribed (heap ?h x)) \<and>
      (\<forall>d \<in> subscribed (heap ?h x). may_hold (heap ?h x) d)" if "x \<in> clients ?h" for x
    using that hub_inv_client [OF inv, of x]
    by (auto simp: h open_client_def may_hold_def control_channels_def)
  with m ow show ?thesis using hub_inv_finite [OF inv] by (simp add: hub_inv_def h)
qed

section \<open>Incoming messages\<close>

definition is_control :: "string \<Rightarrow> bool" where
  "is_control ch \<longleftrightarrow> 0 < length ch \<and> ch ! 0 = CHR ''_''"

definition revokes :: "bytes \<Rightarrow> bool" where
  "revokes data \<longleftrightarrow> (\<exists>p. parse_control data = Some p \<and> cp_Type p = ''revoke'')"

text \<open>What a message does, whatever the order of the range.\<close>

lemma handleIncoming_cases:
  assumes inv: "hub_inv h" and ord: "ranges ord (entry (channels h (Channel m)))"
  shows "handleIncoming ord m h = Inr
    (if \<not> is_control (Channel m) then
       h\<lparr>heap := (\<lambda>c. if c \<in> members h (Channel m) then delivered (Payload m) (heap h c) else heap h c),
         spawned := spawned h @ filter (\<lambda>c. \<not> has_room (send (heap h c))) ord\<rparr>
     else if parse_control (Payload m) = None then
       hub_note LevelWarn ''control message: malformed'' [(''channel'', LString (Channel m))] h
     else if \<not> revokes (Payload m) then h
     else h\<lparr>heap := (\<lambda>c. if c \<in> members h (Channel m)
                           then signal CloseSessionRevoked ''session_revoked'' (heap h c)
                           else heap h c)\<rparr>)"
proof -
  have ord: "set ord = members h (Channel m)" "distinct ord"
    using ord hub_inv_members [OF inv] by (simp_all add: ranges_def)
  then have op: "\<forall>c \<in> set ord. open_client (heap h c)"
    using hub_inv_client(1) [OF inv] members_clients by blast
  then have nc: "\<forall>c \<in> set ord. \<not> closed (disconnect (heap h c))" by (simp add: open_client_def)
  show ?thesis
    using range_deliver [OF ord(2) op] range_disconnect [OF ord(2) nc]
    by (auto simp: handleIncoming_def handleControlMessage_def is_control_def revokes_def ord(1)
        split: option.splits)
qed

lemma hub_inv_handleIncoming:
  assumes inv: "hub_inv h" and "ranges ord (entry (channels h (Channel m)))"
  shows "go_ok hub_inv (handleIncoming ord m h)"
  unfolding handleIncoming_cases [OF assms] go_ok_simps
  by (rule hub_inv_same [OF inv]) auto


section \<open>The loop keeps the invariant\<close>

definition caps_ok :: "'m hub \<Rightarrow> bool" where
  "caps_ok h \<longleftrightarrow>
     (0 < MaxConnectionsTotal (hub_cfg h) \<longrightarrow>
        int (card (clients h)) \<le> MaxConnectionsTotal (hub_cfg h)) \<and>
     (0 < MaxConnectionsPerUser (hub_cfg h) \<longrightarrow>
        (\<forall>u. int (card (owned h u)) \<le> MaxConnectionsPerUser (hub_cfg h)))"

definition pending_ok :: "'m hub \<Rightarrow> bool" where
  "pending_ok h \<longleftrightarrow> distinct (buf (register h)) \<and> (\<forall>c \<in> set (buf (register h)). fresh_client c h)"

definition run_inv :: "'m hub \<Rightarrow> bool" where
  "run_inv h \<longleftrightarrow> hub_inv h \<and> caps_ok h \<and> pending_ok h"

text \<open>What every handler but \<open>handleRegister\<close> leaves alone.\<close>

definition keeps :: "'m hub \<Rightarrow> 'm hub \<Rightarrow> bool" where
  "keeps h h' \<longleftrightarrow> clients h' \<subseteq> clients h \<and> register h' = register h \<and> hub_cfg h' = hub_cfg h \<and>
     (\<forall>c. userID (heap h' c) = userID (heap h c)) \<and> (\<forall>c. c \<notin> clients h \<longrightarrow> heap h' c = heap h c)"

lemma keeps_refl [simp]: "keeps h h"
  by (simp add: keeps_def)

lemma caps_ok_keeps:
  assumes "caps_ok h" and "keeps h h'" and "finite (clients h)"
  shows "caps_ok h'"
proof -
  have cfg: "hub_cfg h' = hub_cfg h" using assms(2) by (simp add: keeps_def)
  have c: "int (card (clients h')) \<le> int (card (clients h))"
    using assms(2,3) by (simp add: keeps_def card_mono)
  have "card (owned h' u) \<le> card (owned h u)" for u
    using assms(2,3) by (intro card_mono) (auto simp: keeps_def owned_def)
  then have u: "int (card (owned h' u)) \<le> int (card (owned h u))" for u by simp
  show ?thesis
    using assms(1) c order_trans [OF u] unfolding caps_ok_def cfg by auto
qed

lemma pending_ok_keeps: "pending_ok h \<Longrightarrow> keeps h h' \<Longrightarrow> pending_ok h'"
proof -
  assume p: "pending_ok h" and k: "keeps h h'"
  have "fresh_client c h'" if "c \<in> set (buf (register h))" for c
  proof -
    have c: "fresh_client c h" using p that by (simp add: pending_ok_def)
    then have "c \<notin> clients h'" "heap h' c = heap h c"
      using k by (auto simp: keeps_def fresh_client_def)
    with c show ?thesis by (simp add: fresh_client_def)
  qed
  with p k show ?thesis by (simp add: pending_ok_def keeps_def)
qed

lemma run_inv_keeps: "run_inv h \<Longrightarrow> hub_inv h' \<Longrightarrow> keeps h h' \<Longrightarrow> run_inv h'"
  unfolding run_inv_def using caps_ok_keeps [of h h'] pending_ok_keeps [of h h'] hub_inv_finite by blast

lemma keeps_unregistered: "c \<in> clients h \<Longrightarrow> keeps h (unregistered mgr ord c h)"
  by (auto simp: keeps_def released_def signal_def)

lemma keeps_deliverFrame:
  assumes "hub_inv h" and "c \<in> clients h"
  shows "go_ok (keeps h) (deliverFrame c p h)"
  using deliverFrame_open [OF hub_inv_client(1) [OF assms]] assms(2)
  by (auto simp: keeps_def delivered_def signal_def)

lemma keeps_addSubscription: "c \<in> clients h \<Longrightarrow> keeps h (addSubscription mgr c ch h)"
  by (auto simp: keeps_def)

lemma keeps_handleClientSubscribe: "hub_inv h \<Longrightarrow> go_ok (keeps h) (handleClientSubscribe mgr s h)"
  by (auto simp: handleClientSubscribe_cases Let_def sendError_def keeps_deliverFrame keeps_addSubscription)

lemma keeps_handleClientUnsubscribe: "keeps h (handleClientUnsubscribe mgr s h)"
  by (auto simp: handleClientUnsubscribe_cases Let_def keeps_def)

lemma keeps_handleIncoming:
  assumes "hub_inv h" and "ranges ord (entry (channels h (Channel m)))"
  shows "go_ok (keeps h) (handleIncoming ord m h)"
  unfolding handleIncoming_cases [OF assms]
  by (auto simp: keeps_def delivered_def signal_def members_def)

text \<open>The queues are no part of the indices.\<close>

lemma queue_update_simps [simp]:
  "hub_inv (h\<lparr>register := a\<rparr>) = hub_inv h" "caps_ok (h\<lparr>register := a\<rparr>) = caps_ok h"
  "hub_inv (h\<lparr>unregister := a\<rparr>) = hub_inv h" "run_inv (h\<lparr>unregister := a\<rparr>) = run_inv h"
  "hub_inv (h\<lparr>subscribe := b\<rparr>) = hub_inv h" "run_inv (h\<lparr>subscribe := b\<rparr>) = run_inv h"
  "hub_inv (h\<lparr>unsubscribe := b\<rparr>) = hub_inv h" "run_inv (h\<lparr>unsubscribe := b\<rparr>) = run_inv h"
  "hub_inv (h\<lparr>incoming := d\<rparr>) = hub_inv h" "run_inv (h\<lparr>incoming := d\<rparr>) = run_inv h"
  "hub_inv (h\<lparr>spawned := e\<rparr>) = hub_inv h" "run_inv (h\<lparr>spawned := e\<rparr>) = run_inv h"
  by (simp_all add: run_inv_def hub_inv_def caps_ok_def pending_ok_def fresh_client_def
      members_def owned_def)

lemma caps_ok_registered:
  assumes inv: "hub_inv h" and caps: "caps_ok h" and room: "\<not> total_full h" "\<not> user_full h (userID (heap h c))"
    and c: "c \<notin> clients h"
  shows "caps_ok (registered mgr c h)"
proof -
  let ?h = "registered mgr c h"
  have f: "finite (clients h)" "finite (owned h u)" for u
    using hub_inv_finite [OF inv] by (auto simp: owned_def)
  have "owned ?h u = (if u = userID (heap h c) then insert c (owned h u) else owned h u)" for u
    using c by (auto simp: owned_def)
  moreover have "c \<notin> owned h u" for u using c by (simp add: owned_def)
  ultimately show ?thesis
    using caps room c f by (auto simp: caps_ok_def total_full_def user_full_def)
qed

lemma run_inv_handleRegister:
  assumes inv: "run_inv h" and q: "register h = q" "buf q = c # cs"
  shows "go_ok run_inv (handleRegister mgr c (h\<lparr>register := q\<lparr>buf := cs\<rparr>\<rparr>))"
proof -
  let ?h = "h\<lparr>register := q\<lparr>buf := cs\<rparr>\<rparr>"
  have h: "hub_inv ?h" "caps_ok ?h" "hub_inv h" and new: "fresh_client c ?h" "c \<notin> set cs"
      and rest: "distinct cs" "\<forall>d \<in> set cs. fresh_client d ?h"
    using inv q by (simp_all add: run_inv_def pending_ok_def fresh_client_def)
  have op: "\<not> closed (disconnect (heap ?h c))" using new by (simp add: fresh_client_def open_client_def)
  have pend: "pending_ok g" if "register g = register ?h" "clients g \<subseteq> insert c (clients ?h)"
      "\<And>d. d \<noteq> c \<Longrightarrow> heap g d = heap ?h d" for g :: "'a hub"
  proof -
    have "fresh_client d g" if "d \<in> set cs" for d
    proof -
      have d: "d \<noteq> c" "fresh_client d ?h" using that rest new(2) by auto
      then have "d \<notin> clients g" "heap g d = heap ?h d"
        using \<open>clients g \<subseteq> _\<close> \<open>\<And>d. d \<noteq> c \<Longrightarrow> _\<close> by (auto simp: fresh_client_def)
      with d show ?thesis by (simp add: fresh_client_def)
    qed
    with rest that(1) show ?thesis by (simp add: pending_ok_def)
  qed
  have "run_inv (upd_client c (signal co r) (hub_note l m kvs ?h))" for co r l m kvs
  proof -
    let ?g = "upd_client c (signal co r) (hub_note l m kvs ?h)"
    have "hub_inv ?g" by (rule hub_inv_same [OF h(1)]) auto
    moreover have "owned ?g u = owned ?h u" for u by (auto simp: owned_def signal_def)
    then have "caps_ok ?g" using h(2) by (simp add: caps_ok_def)
    moreover have "pending_ok ?g" by (rule pend) auto
    ultimately show ?thesis by (simp add: run_inv_def)
  qed
  moreover have "run_inv (registered mgr c ?h)" if "\<not> total_full ?h" "\<not> user_full ?h (userID (heap ?h c))"
    using hub_inv_registered [OF h(1) new(1)] caps_ok_registered [OF h(1,2) that] new(1)
      pend [of "registered mgr c ?h"]
    by (auto simp: run_inv_def fresh_client_def)
  ultimately show ?thesis
    using refuse_open [OF op] by (simp add: handleRegister_cases [OF h(1)])
qed

theorem run_step_safe:
  assumes step: "run_step mgr h r" and inv: "run_inv h"
  shows "go_ok run_inv r"
proof -
  have hi: "hub_inv h" using inv by (simp add: run_inv_def)
  have both: "go_ok run_inv m" if "go_ok hub_inv m" "go_ok (keeps g) m" "run_inv g" for g m
    using that run_inv_keeps by (auto simp: go_ok_Inr)
  show ?thesis
    using step
  proof cases
    case (run_register c ch)
    then show ?thesis using run_inv_handleRegister [OF inv refl] by (auto simp: recv_chan_Received)
  next
    case (run_unregister c ch ord)
    let ?h = "h\<lparr>unregister := ch\<rparr>"
    have "handleUnregister mgr ord c ?h = Inr (if c \<in> clients ?h then unregistered mgr ord c ?h else ?h)"
      using hub_inv_client(1) [OF hi] by (intro handleUnregister_cases) simp
    moreover have "hub_inv (unregistered mgr ord c ?h)" if "c \<in> clients ?h"
      using hi that run_unregister(3) by (intro hub_inv_unregistered) (simp_all add: ranges_def)
    then have "run_inv (unregistered mgr ord c ?h)" if "c \<in> clients ?h"
      using run_inv_keeps [OF _ _ keeps_unregistered [OF that]] inv that by simp
    ultimately show ?thesis using run_unregister(1) inv by simp
  next
    case (run_subscribe s sch)
    then show ?thesis
      using both [OF hub_inv_handleClientSubscribe keeps_handleClientSubscribe, of "h\<lparr>subscribe := sch\<rparr>" mgr s]
        hi inv by simp
  next
    case (run_unsubscribe s sch)
    then show ?thesis
      using run_inv_keeps [OF _ hub_inv_handleClientUnsubscribe keeps_handleClientUnsubscribe,
          of "h\<lparr>unsubscribe := sch\<rparr>" mgr s] hi inv
      by simp
  next
    case (run_incoming m mch ord)
    let ?h = "h\<lparr>incoming := mch\<rparr>"
    have "ranges ord (entry (channels ?h (Channel m)))" using run_incoming by simp
    then show ?thesis
      using run_incoming(1) both [OF hub_inv_handleIncoming keeps_handleIncoming, of ?h ord m] hi inv
      by simp
  qed
qed

end
