(* ===== verification/Django.thy ===== *)
theory Django
  imports GoJson RedisSub
begin

text \<open>
  The documents the Django app hands the gateway, as \<open>websocket_gateway/publish.py\<close> and
  \<open>views.py\<close> write them with Python's \<open>json.dumps\<close>, for plain text: the envelope of a
  published message and the body of a positive \<open>/internal/ws-auth/\<close> answer. Each reads back
  as the tree it stands for. The two revocation messages of \<open>revocation.py\<close> are built on them.
\<close>

section \<open>Members with plain names\<close>

lemma plain_digit: "is_digit c \<Longrightarrow> plain_char c"
  by (auto simp: is_digit_def plain_char_def between_def)

lemma plain_dec_nat: "list_all plain_char (dec_nat n)"
  using dec_nat_digits [of n] by (auto simp: list_all_iff plain_digit)

text \<open>
  What \<open>publish\<close> of the Django app writes for a message with string members, the strings
  being plain text: \<open>json.dumps\<close> with its default separators.
\<close>

fun dumps_members :: "(string \<times> string) list \<Rightarrow> string" where
  "dumps_members [] = []"
| "dumps_members [(k, v)] = [CHR 0x22] @ k @ [CHR 0x22] @ '': '' @ [CHR 0x22] @ v @ [CHR 0x22]"
| "dumps_members ((k, v) # kvs) =
     [CHR 0x22] @ k @ [CHR 0x22] @ '': '' @ [CHR 0x22] @ v @ [CHR 0x22] @ '', '' @ dumps_members kvs"

definition publish_envelope :: "string \<Rightarrow> (string \<times> string) list \<Rightarrow> bytes" where
  "publish_envelope channel payload =
     ''{'' @ [CHR 0x22] @ ''channel'' @ [CHR 0x22] @ '': '' @ [CHR 0x22] @ channel @ [CHR 0x22] @ '', '' @
     [CHR 0x22] @ ''payload'' @ [CHR 0x22] @ '': {'' @ dumps_members payload @ ''}}''"

definition plain_members :: "(string \<times> string) list \<Rightarrow> bool" where
  "plain_members kvs \<longleftrightarrow> (\<forall>kv \<in> set kvs. list_all plain_char (fst kv) \<and> list_all plain_char (snd kv))"

lemma skip_ws_space: "skip_ws (CHR '' '' # s) = skip_ws s"
  by (simp add: skip_ws_def is_ws_def)

lemma parse_plain:
  "list_all plain_char v \<Longrightarrow>
     parse_json Value d (CHR '' '' # CHR 0x22 # v @ CHR 0x22 # r) = Some (JStr v, r)"
  by (simp add: parse_json.simps(1) skip_ws_head skip_ws_space scan_plain)

lemma parse_dumps_members:
  assumes "kvs \<noteq> []" and "plain_members kvs"
  shows "parse_json Members d (dumps_members kvs @ CHR ''}'' # r) =
      Some (JObj (map (\<lambda>(k, v). (k, JStr v)) kvs), r) \<and>
    parse_json Members d (CHR '' '' # dumps_members kvs @ CHR ''}'' # r) =
      Some (JObj (map (\<lambda>(k, v). (k, JStr v)) kvs), r)"
  using assms
proof (induction kvs rule: dumps_members.induct)
  case (2 k v)
  then have p: "list_all plain_char k" "list_all plain_char v" by (simp_all add: plain_members_def)
  show ?case
    by (subst (1 2) parse_json.simps(3)) (simp add: skip_ws_head skip_ws_space scan_plain p parse_plain)
next
  case (3 k v kv kvs)
  let ?t = "dumps_members (kv # kvs) @ CHR ''}'' # r"
  have p: "list_all plain_char k" "list_all plain_char v" and "plain_members (kv # kvs)"
    using "3.prems" by (simp_all add: plain_members_def)
  then have ih: "parse_json Members d (CHR '' '' # ?t) =
      Some (JObj (map (\<lambda>(k, v). (k, JStr v)) (kv # kvs)), r)"
    using "3.IH" by simp
  have m: "dumps_members ((k, v) # kv # kvs) @ CHR ''}'' # r =
      CHR 0x22 # k @ CHR 0x22 # CHR '':'' # CHR '' '' # CHR 0x22 # v @ CHR 0x22 # CHR '','' # CHR '' '' # ?t"
    by simp
  show ?case
    unfolding m
    by (subst (1 2) parse_json.simps(3))
       (simp add: skip_ws_head skip_ws_space scan_plain p parse_plain ih del: dumps_members.simps)
qed simp

lemma document_publish_envelope:
  assumes "list_all plain_char channel" and "kvs \<noteq> []" and "plain_members kvs"
  shows "json_document (publish_envelope channel kvs) =
    Some (JObj [(''channel'', JStr channel), (''payload'', JObj (map (\<lambda>(k, v). (k, JStr v)) kvs))])"
proof -
  let ?kvs = "JObj (map (\<lambda>(k, v). (k, JStr v)) kvs)"
  obtain q where q: "dumps_members kvs = CHR 0x22 # q"
    using assms(2) by (cases kvs rule: dumps_members.cases) simp_all
  have inner: "parse_json Value (Suc 0) (CHR '' '' # CHR ''{'' # dumps_members kvs @ CHR ''}'' # CHR ''}'' # []) =
      Some (?kvs, ''}'')"
    using conjunct1 [OF parse_dumps_members [OF assms(2,3)], of "Suc (Suc 0)" "''}''"]
    by (simp add: parse_json.simps(1) skip_ws_head skip_ws_space maxNestingDepth_def q)
  have names: "scan_string (''payload'' @ CHR 0x22 # r) = Some (''payload'', r)"
    "scan_string (''channel'' @ CHR 0x22 # r) = Some (''channel'', r)" for r
    by (rule scan_plain; simp add: plain_char_def between_def)+
  have pl: "parse_json Members (Suc 0) (CHR '' '' # CHR 0x22 # ''payload'' @ CHR 0x22 # CHR '':'' #
      CHR '' '' # CHR ''{'' # dumps_members kvs @ CHR ''}'' # CHR ''}'' # []) =
      Some (JObj [(''payload'', ?kvs)], [])"
    using names(1) inner
    by (subst parse_json.simps(3)) (simp add: skip_ws_head skip_ws_space)
  have "parse_json Members (Suc 0) (CHR 0x22 # ''channel'' @ CHR 0x22 # CHR '':'' #
      CHR '' '' # CHR 0x22 # channel @ CHR 0x22 # CHR '','' # CHR '' '' # CHR 0x22 # ''payload'' @ CHR 0x22 # CHR '':'' #
      CHR '' '' # CHR ''{'' # dumps_members kvs @ CHR ''}'' # CHR ''}'' # []) =
      Some (JObj [(''channel'', JStr channel), (''payload'', ?kvs)], [])"
    using names(2) pl
    by (subst parse_json.simps(3)) (simp add: skip_ws_head skip_ws_space parse_plain assms(1))
  then show ?thesis
    by (simp add: json_document_def publish_envelope_def parse_json.simps(1) skip_ws_head
        maxNestingDepth_def)
qed


text \<open>
  What Redis hands a subscriber when the app calls \<open>publish\<close>, and the calls of
  \<open>revocation.py\<close>: on logout for the session, and by \<open>force_logout_user\<close> for the user.
\<close>

definition publish :: "string \<Rightarrow> (string \<times> string) list \<Rightarrow> incomingMessage" where
  "publish channel payload = \<lparr>Channel = channel, Payload = publish_envelope channel payload\<rparr>"

definition revoke_on_logout :: "string \<Rightarrow> incomingMessage" where
  "revoke_on_logout session_key =
     publish (''_session:'' @ session_key) [(''type'', ''revoke''), (''reason'', ''logout'')]"

definition force_logout_user :: "int \<Rightarrow> incomingMessage" where
  "force_logout_user pk =
     publish (''_user:'' @ FormatInt pk @ '':revoke'') [(''type'', ''revoke''), (''reason'', ''force_logout'')]"

section \<open>The answer of ws-auth\<close>

lemma members_last:
  assumes "skip_ws s = CHR 0x22 # k @ CHR 0x22 # CHR '':'' # v @ CHR ''}'' # r"
    and "list_all plain_char k" and "parse_json Value d (v @ CHR ''}'' # r) = Some (j, CHR ''}'' # r)"
  shows "parse_json Members d s = Some (JObj [(k, j)], r)"
  using assms(2,3) skip_ws_length [of s]
  by (subst parse_json.simps(3)) (simp add: assms(1) scan_plain skip_ws_head)

lemma members_more:
  assumes "skip_ws s = CHR 0x22 # k @ CHR 0x22 # CHR '':'' # v @ CHR '','' # r"
    and "list_all plain_char k" and "parse_json Value d (v @ CHR '','' # r) = Some (j, CHR '','' # r)"
    and "parse_json Members d r = Some (JObj kvs, t)"
  shows "parse_json Members d s = Some (JObj ((k, j) # kvs), t)"
  using assms(2,3) skip_ws_length [of s]
  by (subst parse_json.simps(3)) (simp add: assms(1,4) scan_plain skip_ws_head)

fun dumps_elements :: "string list \<Rightarrow> string" where
  "dumps_elements [] = []"
| "dumps_elements [v] = [CHR 0x22] @ v @ [CHR 0x22]"
| "dumps_elements (v # vs) = [CHR 0x22] @ v @ [CHR 0x22] @ '', '' @ dumps_elements vs"

lemma parse_elements:
  assumes "vs \<noteq> []" and "\<forall>v \<in> set vs. list_all plain_char v"
  shows "skip_ws s = dumps_elements vs @ CHR '']'' # r \<Longrightarrow>
    parse_json Elements d s = Some (JArr (map JStr vs), r)"
  using assms
proof (induction vs arbitrary: s rule: dumps_elements.induct)
  case (2 v)
  then have "parse_json Value d s = Some (JStr v, CHR '']'' # r)"
    by (simp add: parse_json.simps(1) scan_plain)
  then show ?case by (subst parse_json.simps(2)) (simp add: skip_ws_def is_ws_def)
next
  case (3 v w vs)
  let ?r = "CHR '' '' # dumps_elements (w # vs) @ CHR '']'' # r"
  have v: "parse_json Value d s = Some (JStr v, CHR '','' # ?r)"
    using 3 by (simp add: parse_json.simps(1) scan_plain)
  have "skip_ws ?r = dumps_elements (w # vs) @ CHR '']'' # r"
    by (cases vs) (simp_all add: skip_ws_def is_ws_def)
  then have "parse_json Elements d ?r = Some (JArr (map JStr (w # vs)), r)"
    using 3 by (intro "3.IH") simp_all
  moreover have "length ?r < length s"
    using "3.prems"(1) skip_ws_length [of s] by simp
  ultimately show ?case
    by (subst parse_json.simps(2)) (simp add: v skip_ws_head del: dumps_elements.simps)
qed simp

lemma dec_nat_hd_zero: "hd (dec_nat n) = CHR ''0'' \<Longrightarrow> n = 0"
proof (induction n rule: dec_nat.induct)
  case (1 n)
  show ?case
  proof (cases "n < 10")
    case True
    with "1.prems" have "digit_val (digit_char n) = 0" by (simp add: dec_nat.simps digit_val_def)
    with True show ?thesis by simp
  next
    case False
    then have "hd (dec_nat n) = hd (dec_nat (n div 10))" by (subst dec_nat.simps) simp
    with 1 False have "n div 10 = 0" by simp
    with False show ?thesis by simp
  qed
qed

lemma scan_digits_dec: "\<not> is_digit e \<Longrightarrow> scan_digits (dec_nat n @ e # r) = Some (dec_nat n, e # r)"
  using dec_nat_digits [of n] by (simp add: scan_digits_def takeWhile_append2 dropWhile_append2)

lemma scan_int_part_dec:
  assumes "\<not> is_digit e"
  shows "scan_int_part (dec_nat n @ e # r) = Some (dec_nat n, e # r)"
proof (cases "n = 0")
  case True
  have "char_of (48 :: nat) = CHR ''0''" by code_simp
  then have "dec_nat 0 = ''0''" by (simp add: dec_nat.simps digit_char_def)
  with True show ?thesis by (simp add: scan_int_part_def)
next
  case False
  obtain c cs where c: "dec_nat n = c # cs" by (cases "dec_nat n") simp_all
  then have "c \<noteq> CHR ''0''" using dec_nat_hd_zero [of n] False by auto
  with scan_digits_dec [OF assms, of n r] show ?thesis by (simp add: scan_int_part_def c)
qed

lemma scan_number_FormatInt:
  assumes "\<not> is_digit e" and "e \<notin> {CHR ''.'', CHR ''e'', CHR ''E''}"
  shows "scan_number (FormatInt i @ e # r) = Some (FormatInt i, e # r)"
proof -
  have t: "scan_frac_part (e # r) = Some ([], e # r)" "scan_exp_part (e # r) = Some ([], e # r)"
    using assms(2) by (simp_all add: scan_frac_part_def scan_exp_part_def)
  have "take 1 (dec_nat n @ e # r) \<noteq> ''-''" for n
    using dec_nat_hd_digit [of n] minus_not_digit by (cases "dec_nat n") auto
  then show ?thesis
    by (simp add: scan_number_def FormatInt_def Let_def scan_int_part_dec [OF assms(1)] t)
qed

lemma parse_FormatInt:
  "parse_json Value d (CHR '' '' # FormatInt i @ CHR '','' # r) = Some (JNum (FormatInt i), CHR '','' # r)"
proof -
  obtain c cs where c: "FormatInt i = c # cs" and n: "c = CHR ''-'' \<or> is_digit c"
    using dec_nat_hd_digit [of "nat i"]
    by (cases "i < 0"; cases "dec_nat (nat i)") (auto simp: FormatInt_def)
  have ne: "c \<notin> {CHR 0x22, CHR ''{'', CHR ''['', CHR ''t'', CHR ''f'', CHR ''n''}" "\<not> is_ws c"
    using n by (auto simp: is_digit_def is_ws_def)
  then have "skip_ws (CHR '' '' # FormatInt i @ CHR '','' # r) = c # cs @ CHR '','' # r"
    by (simp add: skip_ws_def is_ws_def c)
  then show ?thesis
    using ne not_sym [of c "CHR ''t''"] not_sym [of c "CHR ''f''"] not_sym [of c "CHR ''n''"]
      scan_number_FormatInt [of "CHR '',''" i r]
    by (subst parse_json.simps(1)) (simp add: c is_digit_def)
qed

definition quoted :: "string \<Rightarrow> string" where
  "quoted s = [CHR 0x22] @ s @ [CHR 0x22]"

definition ws_auth_body :: "int \<Rightarrow> string \<Rightarrow> string list \<Rightarrow> bytes" where
  "ws_auth_body uid name chans =
     ''{'' @ quoted ''authenticated'' @ '': true, '' @ quoted ''user_id'' @ '': '' @ FormatInt uid @ '', '' @
     quoted ''username'' @ '': '' @ quoted name @ '', '' @
     quoted ''allowed_channels'' @ '': ['' @ dumps_elements chans @ '']}''"

lemma document_ws_auth_body:
  assumes "list_all plain_char name" and "\<forall>c \<in> set chans. list_all plain_char c"
  shows "json_document (ws_auth_body uid name chans) =
    Some (JObj [(''authenticated'', JBool True), (''user_id'', JNum (FormatInt uid)),
                (''username'', JStr name), (''allowed_channels'', JArr (map JStr chans))])"
proof -
  have pl: "list_all plain_char ''authenticated''" "list_all plain_char ''user_id''"
    "list_all plain_char ''username''" "list_all plain_char ''allowed_channels''"
    by (simp_all add: plain_char_def between_def)
  let ?e = "CHR ''}'' # []"
  let ?v4 = "CHR '' '' # CHR ''['' # dumps_elements chans @ '']''"
  let ?m4 = "CHR '' '' # quoted ''allowed_channels'' @ CHR '':'' # ?v4 @ ?e"
  let ?m3 = "CHR '' '' # quoted ''username'' @ CHR '':'' # (CHR '' '' # quoted name) @ CHR '','' # ?m4"
  let ?m2 = "CHR '' '' # quoted ''user_id'' @ CHR '':'' # (CHR '' '' # FormatInt uid) @ CHR '','' # ?m3"
  let ?m1 = "quoted ''authenticated'' @ CHR '':'' # '' true'' @ CHR '','' # ?m2"
  have v4: "parse_json Value 1 (?v4 @ ?e) = Some (JArr (map JStr chans), ?e)"
  proof (cases "chans = []")
    case True
    then show ?thesis
      by (subst parse_json.simps(1)) (simp add: skip_ws_def is_ws_def maxNestingDepth_def)
  next
    case False
    then obtain q where q: "dumps_elements chans = CHR 0x22 # q"
      by (cases chans rule: dumps_elements.cases) simp_all
    then have sk: "skip_ws (dumps_elements chans @ CHR '']'' # ?e) = dumps_elements chans @ CHR '']'' # ?e"
      by (simp add: skip_ws_head)
    have "parse_json Elements 2 (dumps_elements chans @ CHR '']'' # ?e) = Some (JArr (map JStr chans), ?e)"
      by (rule parse_elements [OF False assms(2) sk])
    then show ?thesis
      by (subst parse_json.simps(1))
         (simp add: skip_ws_def is_ws_def maxNestingDepth_def q numeral_2_eq_2)
  qed
  have m4: "parse_json Members 1 ?m4 = Some (JObj [(''allowed_channels'', JArr (map JStr chans))], [])"
    by (rule members_last [OF _ pl(4) v4]) (simp add: quoted_def skip_ws_space skip_ws_head)
  have v3: "parse_json Value 1 ((CHR '' '' # quoted name) @ CHR '','' # ?m4) = Some (JStr name, CHR '','' # ?m4)"
    unfolding quoted_def append_Cons append_Nil append_assoc by (rule parse_plain [OF assms(1)])
  have v2: "parse_json Value 1 ((CHR '' '' # FormatInt uid) @ CHR '','' # ?m3) =
      Some (JNum (FormatInt uid), CHR '','' # ?m3)"
    unfolding append_Cons by (rule parse_FormatInt)
  have m3: "parse_json Members 1 ?m3 =
      Some (JObj [(''username'', JStr name), (''allowed_channels'', JArr (map JStr chans))], [])"
    by (rule members_more [OF _ pl(3) v3 m4]) (simp add: quoted_def skip_ws_space skip_ws_head)
  have m2: "parse_json Members 1 ?m2 =
      Some (JObj [(''user_id'', JNum (FormatInt uid)), (''username'', JStr name),
        (''allowed_channels'', JArr (map JStr chans))], [])"
    by (rule members_more [OF _ pl(2) v2 m3]) (simp add: quoted_def skip_ws_space skip_ws_head)
  have "parse_json Value 1 ('' true'' @ CHR '','' # ?m2) = Some (JBool True, CHR '','' # ?m2)"
    by (subst parse_json.simps(1)) (simp add: skip_ws_def is_ws_def)
  from members_more [OF _ pl(1) this m2, of ?m1] have "parse_json Members 1 ?m1 =
      Some (JObj [(''authenticated'', JBool True), (''user_id'', JNum (FormatInt uid)),
        (''username'', JStr name), (''allowed_channels'', JArr (map JStr chans))], [])"
    by (simp add: quoted_def skip_ws_head)
  moreover have "ws_auth_body uid name chans = CHR ''{'' # ?m1"
    by (simp add: ws_auth_body_def)
  ultimately show ?thesis
    by (simp add: json_document_def parse_json.simps(1) [of 0] skip_ws_head maxNestingDepth_def quoted_def)
qed

end
