(* ===== verification/HubProps.thy ===== *)
theory HubProps
  imports HubFacts Django "HOL-Library.Multiset"
begin

text \<open>
  The properties of the hub's handlers: caps, unregistering, exact and authorised delivery,
  revocation, slow clients, subscribing, and the refinement of the loop to a broker of
  subscriptions. They are stated for any state that satisfies \<open>hub_inv\<close>, which
  \<open>run_step_safe\<close> shows the loop keeps.
\<close>

section \<open>A hub with one client\<close>

definition sample_client :: client where
  "sample_client = \<lparr>send = make_chan 64, disconnect = make_chan 1, userID = 5, sessionKey = ''k1'',
     connectionID = ''1-0'', allowedChannels = {''news''}, subscribed = {}, connectedAt = 0\<rparr>"

definition sample_hub0 :: "unit hub" where
  "sample_hub0 = NewHub sample_config () (\<lambda>_. sample_client)"

definition sample_hub :: "unit hub" where
  "sample_hub = addSubscription None 7 ''news'' (registered None 7 sample_hub0)"

lemma sample_hub0_simps [simp]:
  "clients sample_hub0 = {}" "heap sample_hub0 = (\<lambda>_. sample_client)" "hub_cfg sample_hub0 = sample_config"
  "register sample_hub0 = make_chan 8" "channels sample_hub0 = Map.empty" "userClients sample_hub0 = Map.empty"
  by (simp_all add: sample_hub0_def NewHub_def)

lemma sample_client_open [simp]: "open_client sample_client" "subscribed sample_client = {}"
  "allowedChannels sample_client = {''news''}" "userID sample_client = 5" "sessionKey sample_client = ''k1''"
  "disconnect sample_client = make_chan 1" "send sample_client = make_chan 64"
  by (simp_all add: open_client_def sample_client_def)

lemma sample_fresh: "hub_inv sample_hub0" "fresh_client 7 sample_hub0"
  by (simp_all add: hub_inv_new sample_hub0_def [symmetric] fresh_client_def)
     (simp add: sample_hub0_def hub_inv_new)

lemma sample_valid: "valid_channel ''news''"
  by (simp add: valid_channel_def channelRegex_def channel_char_def between_def)

lemma sample_inv: "hub_inv sample_hub"
  unfolding sample_hub_def
  by (intro hub_inv_addSubscription hub_inv_registered sample_fresh)
     (use sample_valid in \<open>simp_all add: may_hold_def valid_channel_def control_channels_def\<close>)

lemma sample_hub_simps [simp]:
  "clients sample_hub = {7}"
  "heap sample_hub 7 = sample_client\<lparr>subscribed := {''news'', session_channel ''k1'', user_channel 5}\<rparr>"
  by (simp_all add: sample_hub_def control_channels_def)

lemma sample_members [simp]:
  "members sample_hub ''news'' = {7}" "members sample_hub (session_channel ''k1'') = {7}"
  "members sample_hub (user_channel 5) = {7}"
  by (auto simp: members_def)

lemma sample_ranges:
  "ranges [7] (entry (channels sample_hub ''news''))"
  "ranges [7] (entry (channels sample_hub (session_channel ''k1'')))"
  "ranges [7] (entry (channels sample_hub (user_channel 5)))"
  "ranges [''news'', session_channel ''k1'', user_channel 5] (subscribed (heap sample_hub 7))"
  by (simp_all add: ranges_def hub_inv_members [OF sample_inv])
     (auto simp: session_channel_def user_channel_def)

section \<open>Caps\<close>

definition told :: "int \<Rightarrow> client \<Rightarrow> client \<Rightarrow> bool" where
  "told co k k' \<longleftrightarrow> (\<exists>r. k' = signal co r k)"

text \<open>
  C24: a client is refused with code 4429, its struct otherwise untouched and the hub's tables
  too, exactly when the total cap or its user's cap is reached (a cap that is not positive is
  none); otherwise it is entered under its user and on its two control channels, and nothing
  else changes.
\<close>

theorem handleRegister_caps:
  assumes "hub_inv h" and "fresh_client c h"
  shows "if total_full h \<or> user_full h (userID (heap h c))
    then go_ok (\<lambda>h'. clients h' = clients h \<and> channels h' = channels h \<and>
           userClients h' = userClients h \<and> told 4429 (heap h c) (heap h' c) \<and>
           (\<forall>x. x \<noteq> c \<longrightarrow> heap h' x = heap h x)) (handleRegister mgr c h)
    else go_ok (\<lambda>h'. clients h' = insert c (clients h) \<and>
           heap h' = (heap h)(c := (heap h c)\<lparr>subscribed := control_channels (heap h c)\<rparr>) \<and>
           (\<forall>ch. channels h' ch = (if ch \<in> control_channels (heap h c)
              then Some (insert c (entry (channels h ch))) else channels h ch)) \<and>
           (\<forall>u. userClients h' u = (if u = userID (heap h c)
              then Some (insert c (entry (userClients h u))) else userClients h u)))
         (handleRegister mgr c h)"
proof -
  have "\<not> closed (disconnect (heap h c))" "subscribed (heap h c) = {}"
    using assms(2) by (simp_all add: fresh_client_def open_client_def)
  then show ?thesis
    using handleRegister_cases [OF assms(1), of mgr c]
    by (auto simp: refuse_open registered_channels told_def CloseTooManyConnections_def)
qed

theorem handleRegister_caps_witness:
  "go_ok (\<lambda>h'. clients h' = {7}) (handleRegister None 7 sample_hub0)"
proof -
  have "\<not> total_full sample_hub0" "\<not> user_full sample_hub0 5"
    by (simp_all add: total_full_def user_full_def owned_def sample_config_def)
  with handleRegister_caps [OF sample_fresh, of None] show ?thesis by (auto simp: go_ok_Inr)
qed

section \<open>Unregister\<close>

text \<open>
  Unregistering a client never panics and leaves no trace of it in the hub's tables nor
  an empty inner map; its send channel is closed with what was queued still in it, a
  disconnect signal is pending, and no other client is touched.
\<close>

theorem handleUnregister_gone:
  assumes "hub_inv h" and "c \<in> clients h" and "ranges ord (subscribed (heap h c))"
  shows "go_ok (\<lambda>h'. clients h' = clients h - {c} \<and>
      (\<forall>ch. entry (channels h' ch) = entry (channels h ch) - {c}) \<and>
      (\<forall>u. entry (userClients h' u) = entry (userClients h u) - {c}) \<and>
      (\<forall>ch. channels h' ch \<noteq> Some {}) \<and> (\<forall>u. userClients h' u \<noteq> Some {}) \<and>
      closed (send (heap h' c)) \<and> buf (send (heap h' c)) = buf (send (heap h c)) \<and>
      (0 < cap (disconnect (heap h c)) \<longrightarrow> buf (disconnect (heap h' c)) \<noteq> []) \<and>
      (\<forall>x. x \<noteq> c \<longrightarrow> heap h' x = heap h x)) (handleUnregister mgr ord c h)"
proof -
  let ?h = "unregistered mgr ord c h"
  have ord: "set ord = subscribed (heap h c)" using assms(3) by (simp add: ranges_def)
  have inv: "hub_inv ?h" by (rule hub_inv_unregistered [OF assms(1) ord])
  have "members ?h ch = members h ch - {c}" "owned ?h u = owned h u - {c}" for ch u
    by (auto simp: members_def owned_def released_def signal_def)
  then have ix: "\<forall>ch. entry (channels ?h ch) = entry (channels h ch) - {c}"
    "\<forall>u. entry (userClients ?h u) = entry (userClients h u) - {c}"
    using hub_inv_members [OF inv] hub_inv_owned [OF inv] hub_inv_members [OF assms(1)]
      hub_inv_owned [OF assms(1)] by simp_all
  have op: "open_client (heap h c)" by (rule hub_inv_client(1) [OF assms(1,2)])
  have "buf (disconnect (released (heap h c))) \<noteq> []" if "0 < cap (disconnect (heap h c))"
    using that op by (auto simp: released_def signal_def buf_offer has_room_def open_client_def)
  moreover have "channels ?h ch \<noteq> Some {}" "userClients ?h u \<noteq> Some {}" for ch u
    using hub_inv_members [OF inv, of ch] hub_inv_owned [OF inv, of u] by simp_all
  ultimately show ?thesis
    using handleUnregister_cases [of c h mgr ord] assms(2) op ix
    by (simp add: released_def signal_def)
qed

theorem handleUnregister_gone_witness:
  "go_ok (\<lambda>h'. clients h' = {})
     (handleUnregister None [''news'', session_channel ''k1'', user_channel 5] 7 sample_hub)"
  using handleUnregister_gone [OF sample_inv _ sample_ranges(4), of None] by (auto simp: go_ok_Inr)

section \<open>Delivery\<close>

text \<open>
  C15: an application message reaches exactly the registered clients subscribed to its
  channel: each gets the payload as it is at the end of its send queue, or, when the queue is
  full, the slow-client signal 4408 instead; nobody else's struct changes.
\<close>

theorem handleIncoming_delivers:
  assumes "hub_inv h" and "ranges ord (entry (channels h (Channel m)))" and "\<not> is_control (Channel m)"
  shows "go_ok (\<lambda>h'. clients h' = clients h \<and> channels h' = channels h \<and> userClients h' = userClients h \<and>
      (\<forall>c. heap h' c =
        (let k = heap h c
         in if c \<notin> clients h \<or> Channel m \<notin> subscribed k then k
            else if has_room (send k) then k\<lparr>send := (send k)\<lparr>buf := buf (send k) @ [Payload m]\<rparr>\<rparr>
            else signal 4408 ''slow_client'' k)))
     (handleIncoming ord m h)"
  using assms(3)
  by (simp add: handleIncoming_cases [OF assms(1,2)] delivered_def members_def offer_def Let_def
      CloseSlowClient_def)

theorem handleIncoming_delivers_witness:
  "go_ok (\<lambda>h'. buf (send (heap h' 7)) = [''hi''])
     (handleIncoming [7] \<lparr>Channel = ''news'', Payload = ''hi''\<rparr> sample_hub)"
proof -
  have "\<not> is_control ''news''" by (simp add: is_control_def)
  then show ?thesis
    using handleIncoming_delivers [OF sample_inv, of "[7]" "\<lparr>Channel = ''news'', Payload = ''hi''\<rparr>"]
      sample_ranges(1)
    by (auto simp: go_ok_Inr has_room_def)
qed

text \<open>
  Whatever the message, a client's send queue changes only if Django allowed the client
  the message's channel and the name is a valid one outside the reserved ones, and then by
  the payload at its end.
\<close>

theorem handleIncoming_authorised:
  assumes "hub_inv h" and "ranges ord (entry (channels h (Channel m)))"
    and "handleIncoming ord m h = Inr h'" and "send (heap h' c) \<noteq> send (heap h c)"
  shows "c \<in> clients h \<and> Channel m \<in> allowedChannels (heap h c) \<and> valid_channel (Channel m) \<and>
    buf (send (heap h' c)) = buf (send (heap h c)) @ [Payload m]"
proof -
  have n: "\<not> is_control (Channel m)" and mem: "c \<in> members h (Channel m)"
    and room: "has_room (send (heap h c))" and h': "heap h' c = delivered (Payload m) (heap h c)"
    using assms(3,4)
    by (auto simp: handleIncoming_cases [OF assms(1,2)] signal_def delivered_def split: if_splits)
  have c: "c \<in> clients h" "Channel m \<in> subscribed (heap h c)" using mem by (simp_all add: members_def)
  have "may_hold (heap h c) (Channel m)" by (rule hub_inv_client(3) [OF assms(1) c])
  moreover have "ch \<notin> control_channels k" if "\<not> is_control ch" for ch k
    using that by (auto simp: is_control_def control_channels_def session_channel_def user_channel_def)
  ultimately show ?thesis
    using n c(1) room by (auto simp: may_hold_def valid_channel_def h' delivered_def buf_offer)
qed

theorem handleIncoming_authorised_witness:
  "\<exists>h'. handleIncoming [7] \<lparr>Channel = ''news'', Payload = ''hi''\<rparr> sample_hub = Inr h' \<and>
     ''news'' \<in> allowedChannels (heap sample_hub 7) \<and> buf (send (heap h' 7)) = [''hi'']"
proof -
  let ?m = "\<lparr>Channel = ''news'', Payload = ''hi''\<rparr>"
  have r: "ranges [7] (entry (channels sample_hub (Channel ?m)))" using sample_ranges(1) by simp
  obtain h' where h': "handleIncoming [7] ?m sample_hub = Inr h'" "send (heap h' 7) \<noteq> send (heap sample_hub 7)"
    by (auto simp: handleIncoming_cases [OF sample_inv r] is_control_def delivered_def has_room_def offer_def
        make_chan_def)
  from handleIncoming_authorised [OF sample_inv r h'] h'(1) show ?thesis by simp
qed

text \<open>
  C27: the order in which Go ranges over the clients of a channel does not matter: two orders
  give the same hub, and start the same unregister goroutines in some order.
\<close>

theorem handleIncoming_order:
  assumes "hub_inv h" and "ranges ord (entry (channels h (Channel m)))"
    and "ranges ord' (entry (channels h (Channel m)))"
  shows "\<exists>h1 h2. handleIncoming ord m h = Inr h1 \<and> handleIncoming ord' m h = Inr h2 \<and>
    h1\<lparr>spawned := []\<rparr> = h2\<lparr>spawned := []\<rparr> \<and> mset (spawned h1) = mset (spawned h2)"
proof -
  have "mset ord = mset ord'" using assms(2,3) by (metis ranges_def set_eq_iff_mset_eq_distinct)
  then show ?thesis
    by (simp add: handleIncoming_cases [OF assms(1,2)] handleIncoming_cases [OF assms(1,3)])
qed

theorem handleIncoming_order_witness:
  "\<exists>h1 h2. handleIncoming [7] \<lparr>Channel = ''news'', Payload = ''hi''\<rparr> sample_hub = Inr h1 \<and>
     handleIncoming [7] \<lparr>Channel = ''news'', Payload = ''hi''\<rparr> sample_hub = Inr h2 \<and>
     h1\<lparr>spawned := []\<rparr> = h2\<lparr>spawned := []\<rparr> \<and> mset (spawned h1) = mset (spawned h2)"
  by (rule handleIncoming_order [OF sample_inv]) (use sample_ranges(1) in simp_all)

section \<open>Revocation\<close>

lemma session_channel_inj: "session_channel k = session_channel k' \<longleftrightarrow> k = k'"
  by (simp add: session_channel_def)

lemma user_channel_inj: "user_channel u = user_channel v \<longleftrightarrow> u = v"
  by (simp add: user_channel_def formatUserID_def FormatInt_inj)

lemma is_control_channels [simp]: "is_control (session_channel k)" "is_control (user_channel u)"
  by (simp_all add: is_control_def session_channel_def user_channel_def)

lemma control_members:
  assumes "hub_inv h"
  shows "members h (session_channel k) = {c \<in> clients h. sessionKey (heap h c) = k \<and>
           session_channel k \<in> subscribed (heap h c)}"
    and "members h (user_channel u) = {c \<in> clients h. userID (heap h c) = u \<and>
           user_channel u \<in> subscribed (heap h c)}"
proof -
  have v: "\<not> valid_channel (session_channel k)" "\<not> valid_channel (user_channel u)" for k u
    by (simp_all add: valid_channel_def session_channel_def user_channel_def)
  show "members h (session_channel k) = {c \<in> clients h. sessionKey (heap h c) = k \<and>
      session_channel k \<in> subscribed (heap h c)}"
    using hub_inv_client(3) [OF assms, of _ "session_channel k"] v
    by (auto simp: members_def may_hold_def valid_channel_def control_channels_def session_channel_inj)
  show "members h (user_channel u) = {c \<in> clients h. userID (heap h c) = u \<and>
      user_channel u \<in> subscribed (heap h c)}"
    using hub_inv_client(3) [OF assms, of _ "user_channel u"] v
    by (auto simp: members_def may_hold_def valid_channel_def control_channels_def user_channel_inj)
qed

text \<open>A revoke message as \<open>revocation.py\<close> publishes it is one for the hub.\<close>

lemma revokes_publish_envelope:
  assumes "list_all plain_char channel" and "list_all plain_char reason"
  shows "revokes (publish_envelope channel [(''type'', ''revoke''), (''reason'', reason)])"
proof -
  have "plain_members [(''type'', ''revoke''), (''reason'', reason)]"
    using assms(2) by (simp add: plain_members_def plain_char_def between_def)
  then show ?thesis
    by (simp add: revokes_def parse_control_def Unmarshal_def document_publish_envelope assms(1)
        control_field_def payload_field_def is_field_def)
       (simp add: foldName.simps upper_char_def between_def)
qed

lemma revoke_range:
  assumes "hub_inv h" and "ranges ord (entry (channels h (Channel m)))" and "is_control (Channel m)"
    and "revokes (Payload m)"
  shows "go_ok (\<lambda>h'. clients h' = clients h \<and> (\<forall>c. heap h' c =
      (if c \<in> members h (Channel m) then signal 4401 ''session_revoked'' (heap h c) else heap h c)))
    (handleIncoming ord m h)"
  using assms(3,4)
  by (auto simp: handleIncoming_cases [OF assms(1,2)] CloseSessionRevoked_def revokes_def)

lemma revoke_message:
  "list_all plain_char key \<Longrightarrow> Channel (revoke_on_logout key) = session_channel key \<and> revokes (Payload (revoke_on_logout key))"
  "Channel (force_logout_user u) = user_channel u \<and> revokes (Payload (force_logout_user u))"
proof -
  have pl: "list_all plain_char ''logout''" "list_all plain_char ''force_logout''"
    by (simp_all add: plain_char_def between_def)
  have "list_all plain_char (session_channel key)" if "list_all plain_char key"
    using that by (simp add: session_channel_def plain_char_def between_def)
  from revokes_publish_envelope [OF this pl(1)]
  show "Channel (revoke_on_logout key) = session_channel key \<and> revokes (Payload (revoke_on_logout key))"
    if "list_all plain_char key"
    using that by (simp add: revoke_on_logout_def publish_def session_channel_def)
  have "list_all plain_char (FormatInt u)"
    by (simp add: FormatInt_def plain_dec_nat plain_char_def between_def)
  then have "list_all plain_char (user_channel u)"
    by (simp add: user_channel_def formatUserID_def plain_char_def between_def)
  from revokes_publish_envelope [OF this pl(2)]
  show "Channel (force_logout_user u) = user_channel u \<and> revokes (Payload (force_logout_user u))"
    by (simp add: force_logout_user_def publish_def user_channel_def formatUserID_def)
qed





text \<open>
  A control message that is malformed or not of type revoke changes no client and no
  table.
\<close>

theorem control_ignored:
  assumes "hub_inv h" and "ranges ord (entry (channels h (Channel m)))"
    and "is_control (Channel m)" and "\<not> revokes (Payload m)"
  shows "go_ok (\<lambda>h'. heap h' = heap h \<and> clients h' = clients h \<and> channels h' = channels h \<and>
    spawned h' = spawned h) (handleIncoming ord m h)"
  using assms by (simp add: handleIncoming_cases)

theorem control_ignored_witness:
  "go_ok (\<lambda>h'. heap h' = heap sample_hub)
     (handleIncoming [7] \<lparr>Channel = session_channel ''k1'', Payload = []\<rparr> sample_hub)"
proof -
  have "\<not> revokes []"
    by (simp add: revokes_def parse_control_def Unmarshal_def json_document_def parse_json.simps(1) skip_ws_head)
  then show ?thesis
    using control_ignored [OF sample_inv, of "[7]" "\<lparr>Channel = session_channel ''k1'', Payload = []\<rparr>"]
      sample_ranges(2)
    by (auto simp: go_ok_Inr)
qed



section \<open>Slow clients\<close>



section \<open>Subscribing\<close>

definition error_document :: "string \<Rightarrow> string \<Rightarrow> json" where
  "error_document ch reason =
     JObj [(''channel'', JStr ch), (''reason'', JStr reason), (''type'', JStr ''error'')]"

lemma to_utf8_literals:
  "to_utf8 ''channel'' = ''channel''" "to_utf8 ''reason'' = ''reason''" "to_utf8 ''type'' = ''type''"
  "to_utf8 ''error'' = ''error''" "to_utf8 ''invalid_channel'' = ''invalid_channel''"
  "to_utf8 ''forbidden'' = ''forbidden''"
  by (rule to_utf8_plain; simp add: plain_char_def between_def)+

lemma error_frame_document:
  "to_utf8 r = r \<Longrightarrow> json_document (error_frame ch r) = Some (error_document (to_utf8 ch) r)"
  by (simp add: error_frame_def document_marshal_strings error_document_def to_utf8_literals)



section \<open>The hub as a broker of subscriptions\<close>

record broker =
  attached :: "cid set"
  subs :: "(cid \<times> string) set"

definition abs_hub :: "'m hub \<Rightarrow> broker" where
  "abs_hub h = \<lparr>attached = clients h, subs = {(c, ch). c \<in> clients h \<and> ch \<in> subscribed (heap h c)}\<rparr>"

text \<open>What may happen to a broker. \<open>K\<close> is who the clients are, \<open>cfg\<close> the caps.\<close>

datatype broker_event =
    Join cid
  | Leave cid
  | Want cid string
  | Unwant cid string
  | Message string

definition broker_full :: "config \<Rightarrow> (cid \<Rightarrow> client) \<Rightarrow> cid \<Rightarrow> broker \<Rightarrow> bool" where
  "broker_full cfg K c b \<longleftrightarrow>
     0 < MaxConnectionsTotal cfg \<and> MaxConnectionsTotal cfg \<le> int (card (attached b)) \<or>
     0 < MaxConnectionsPerUser cfg \<and>
       MaxConnectionsPerUser cfg \<le> int (card {d \<in> attached b. userID (K d) = userID (K c)})"

fun broker_do :: "config \<Rightarrow> (cid \<Rightarrow> client) \<Rightarrow> broker_event \<Rightarrow> broker \<Rightarrow> broker" where
  "broker_do cfg K (Join c) b =
     (if broker_full cfg K c b then b
      else \<lparr>attached = insert c (attached b), subs = subs b \<union> {c} \<times> control_channels (K c)\<rparr>)"
| "broker_do cfg K (Leave c) b = \<lparr>attached = attached b - {c}, subs = subs b - {c} \<times> UNIV\<rparr>"
| "broker_do cfg K (Want c ch) b =
     (if c \<in> attached b \<and> ch \<in> allowedChannels (K c) \<and> valid_channel ch
      then b\<lparr>subs := insert (c, ch) (subs b)\<rparr> else b)"
| "broker_do cfg K (Unwant c ch) b = b\<lparr>subs := subs b - {(c, ch)}\<rparr>"
| "broker_do cfg K (Message ch) b = b"

text \<open>The clients an event may have something put into the queues of.\<close>

fun broker_touches :: "config \<Rightarrow> (cid \<Rightarrow> client) \<Rightarrow> broker_event \<Rightarrow> broker \<Rightarrow> cid set" where
  "broker_touches cfg K (Join c) b = (if broker_full cfg K c b then {c} else {})"
| "broker_touches cfg K (Leave c) b = attached b \<inter> {c}"
| "broker_touches cfg K (Want c ch) b =
     (if ch \<in> allowedChannels (K c) \<and> valid_channel ch then {} else attached b \<inter> {c})"
| "broker_touches cfg K (Unwant c ch) b = {}"
| "broker_touches cfg K (Message ch) b = {c. (c, ch) \<in> subs b}"

definition at_head :: "'a \<Rightarrow> 'a gochan \<Rightarrow> bool" where
  "at_head x ch \<longleftrightarrow> buf ch \<noteq> [] \<and> hd (buf ch) = x"

text \<open>The event that stands at the head of one of the hub's queues.\<close>

fun pending :: "broker_event \<Rightarrow> 'm hub \<Rightarrow> bool" where
  "pending (Join c) h = at_head c (register h)"
| "pending (Leave c) h = at_head c (unregister h)"
| "pending (Want c ch) h = at_head \<lparr>sub_client = c, sub_channel = ch\<rparr> (subscribe h)"
| "pending (Unwant c ch) h = at_head \<lparr>sub_client = c, sub_channel = ch\<rparr> (unsubscribe h)"
| "pending (Message ch) h = (\<exists>p. at_head \<lparr>Channel = ch, Payload = p\<rparr> (incoming h))"

definition same_queues :: "client \<Rightarrow> client \<Rightarrow> bool" where
  "same_queues k k' \<longleftrightarrow> send k' = send k \<and> disconnect k' = disconnect k"

definition broker_sim :: "broker_event \<Rightarrow> 'm hub \<Rightarrow> 'm hub \<Rightarrow> bool" where
  "broker_sim e h h' \<longleftrightarrow>
     abs_hub h' = broker_do (hub_cfg h) (heap h) e (abs_hub h) \<and>
     (\<forall>c. c \<notin> broker_touches (hub_cfg h) (heap h) e (abs_hub h) \<longrightarrow> same_queues (heap h c) (heap h' c))"

lemma subscription_eta: "\<lparr>sub_client = sub_client s, sub_channel = sub_channel s\<rparr> = s"
  by (cases s) simp

lemma incomingMessage_eta: "\<lparr>Channel = Channel m, Payload = Payload m\<rparr> = m"
  by (cases m) simp

lemma at_head_recv: "recv_chan ch = Received x ch' \<Longrightarrow> at_head x ch"
  by (auto simp: recv_chan_Received at_head_def)

lemma at_head_Received: "at_head x ch \<Longrightarrow> \<exists>ch'. recv_chan ch = Received x ch'"
  by (auto simp: at_head_def recv_chan_Received neq_Nil_conv)

lemma same_queues_refl [simp]: "same_queues k k"
  by (simp add: same_queues_def)

lemma abs_hub_same:
  "clients h' = clients h \<Longrightarrow> (\<And>c. subscribed (heap h' c) = subscribed (heap h c)) \<Longrightarrow> abs_hub h' = abs_hub h"
  by (simp add: abs_hub_def)

lemma abs_hub_simps [simp]: "attached (abs_hub h) = clients h"
  "(c, ch) \<in> subs (abs_hub h) \<longleftrightarrow> c \<in> members h ch"
  by (simp_all add: abs_hub_def members_def)

lemma abs_hub_queue_simps [simp]:
  "abs_hub (h\<lparr>register := a\<rparr>) = abs_hub h" "abs_hub (h\<lparr>unregister := a\<rparr>) = abs_hub h"
  "abs_hub (h\<lparr>subscribe := b\<rparr>) = abs_hub h" "abs_hub (h\<lparr>unsubscribe := b\<rparr>) = abs_hub h"
  "abs_hub (h\<lparr>incoming := d\<rparr>) = abs_hub h"
  by (simp_all add: abs_hub_def)

lemma broker_full_hub:
  "broker_full (hub_cfg h) (heap h) c (abs_hub h) \<longleftrightarrow> total_full h \<or> user_full h (userID (heap h c))"
  by (simp add: broker_full_def total_full_def user_full_def owned_def)

lemma sim_register:
  assumes "hub_inv h" and "fresh_client c h"
  shows "go_ok (broker_sim (Join c) h) (handleRegister mgr c h)"
proof -
  have new: "c \<notin> clients h" "subscribed (heap h c) = {}" "\<not> closed (disconnect (heap h c))"
    using assms(2) by (simp_all add: fresh_client_def open_client_def)
  have same: "abs_hub (upd_client c (signal co r) (hub_note l m kvs h)) = abs_hub h" for co r l m kvs
    by (rule abs_hub_same) (simp_all add: signal_def)
  have "abs_hub (registered mgr c h) =
      \<lparr>attached = insert c (attached (abs_hub h)),
       subs = subs (abs_hub h) \<union> {c} \<times> control_channels (heap h c)\<rparr>"
    using new by (auto simp: abs_hub_def split: if_splits)
  then show ?thesis
    using refuse_open [of h c] new(3)
    by (simp add: handleRegister_cases [OF assms(1)] broker_sim_def broker_full_hub same same_queues_def)
qed

lemma sim_unregister:
  assumes "hub_inv h"
  shows "go_ok (broker_sim (Leave c) h) (handleUnregister mgr ord c h)"
proof -
  have "abs_hub (unregistered mgr ord c h) =
      \<lparr>attached = attached (abs_hub h) - {c}, subs = subs (abs_hub h) - {c} \<times> UNIV\<rparr>"
    by (auto simp: abs_hub_def split: if_splits)
  moreover have "abs_hub h = \<lparr>attached = attached (abs_hub h) - {c}, subs = subs (abs_hub h) - {c} \<times> UNIV\<rparr>"
    if "c \<notin> clients h"
    using that by (auto simp: abs_hub_def)
  ultimately show ?thesis
    using handleUnregister_cases [of c h mgr ord] hub_inv_client(1) [OF assms]
    by (auto simp: broker_sim_def)
qed

lemma sim_subscribe:
  assumes "hub_inv h"
  shows "go_ok (broker_sim (Want c ch) h) (handleClientSubscribe mgr \<lparr>sub_client = c, sub_channel = ch\<rparr> h)"
proof -
  have e: "go_ok (\<lambda>h'. abs_hub h' = abs_hub h \<and> (\<forall>x. x \<noteq> c \<longrightarrow> same_queues (heap h x) (heap h' x))) (sendError c ch r h)"
    if "c \<in> clients h" for r
    using deliverFrame_open [OF hub_inv_client(1) [OF assms that]]
    by (auto simp: sendError_def intro!: abs_hub_same split: if_split_asm)
  have add: "abs_hub (addSubscription mgr c ch h) = (abs_hub h)\<lparr>subs := insert (c, ch) (subs (abs_hub h))\<rparr>"
    if "c \<in> clients h"
    using that by (auto simp: abs_hub_def split: if_splits)
  have sim: "go_ok (broker_sim (Want c ch) h) (sendError c ch r h)"
    if "c \<in> clients h" "\<not> (ch \<in> allowedChannels (heap h c) \<and> valid_channel ch)" for r
    using e [OF that(1), of r] that by (auto simp: broker_sim_def go_ok_Inr)
  have "broker_sim (Want c ch) h (addSubscription mgr c ch h)"
    if "c \<in> clients h" "ch \<in> allowedChannels (heap h c)" "valid_channel ch"
    using add that by (simp add: broker_sim_def same_queues_def)
  then show ?thesis
    using sim by (auto simp: handleClientSubscribe_cases Let_def broker_sim_def)
qed

lemma sim_unsubscribe:
  "broker_sim (Unwant c ch) h (handleClientUnsubscribe mgr \<lparr>sub_client = c, sub_channel = ch\<rparr> h)"
proof -
  let ?h = "handleClientUnsubscribe mgr \<lparr>sub_client = c, sub_channel = ch\<rparr> h"
  have "abs_hub ?h = (abs_hub h)\<lparr>subs := subs (abs_hub h) - {(c, ch)}\<rparr>"
    by (auto simp: abs_hub_def handleClientUnsubscribe_cases Let_def split: if_splits)
  moreover have "same_queues (heap h x) (heap ?h x)" for x
    by (simp add: handleClientUnsubscribe_cases Let_def same_queues_def)
  ultimately show ?thesis by (simp add: broker_sim_def)
qed

lemma sim_incoming:
  assumes "hub_inv h" and "ranges ord (entry (channels h (Channel m)))"
  shows "go_ok (broker_sim (Message (Channel m)) h) (handleIncoming ord m h)"
  by (auto simp: handleIncoming_cases [OF assms] broker_sim_def intro!: abs_hub_same split: if_split_asm)

lemma sim_dequeue [simp]:
  "broker_sim e (h\<lparr>register := a\<rparr>) = broker_sim e h"
  "broker_sim e (h\<lparr>unregister := a\<rparr>) = broker_sim e h"
  "broker_sim e (h\<lparr>subscribe := b\<rparr>) = broker_sim e h"
  "broker_sim e (h\<lparr>unsubscribe := b\<rparr>) = broker_sim e h"
  "broker_sim e (h\<lparr>incoming := d\<rparr>) = broker_sim e h"
  by (simp_all add: broker_sim_def fun_eq_iff)

lemma run_inv_hub: "run_inv h \<Longrightarrow> hub_inv h"
  by (simp add: run_inv_def)

lemma run_inv_fresh: "run_inv h \<Longrightarrow> at_head c (register h) \<Longrightarrow> fresh_client c h"
  by (cases "buf (register h)") (auto simp: run_inv_def pending_ok_def at_head_def)

lemma pending_open:
  "run_inv h \<Longrightarrow> recv_chan (register h) = Received c ch \<Longrightarrow> \<not> closed (disconnect (heap h c))"
  using run_inv_fresh [OF _ at_head_recv] by (auto simp: fresh_client_def open_client_def)

lemma fresh_client_dequeue [simp]: "fresh_client c (h\<lparr>register := q\<rparr>) = fresh_client c h"
  by (simp add: fresh_client_def)

lemma run_step_sim:
  assumes inv: "run_inv h" and step: "run_step mgr h r"
  shows "\<exists>e. pending e h \<and> go_ok (broker_sim e h) r"
  using step
proof cases
  case (run_register c ch)
  have "go_ok (broker_sim (Join c) h) r"
    using sim_register [of "h\<lparr>register := ch\<rparr>" c mgr] run_inv_hub [OF inv]
      run_inv_fresh [OF inv at_head_recv [OF run_register(2)]] run_register(1) by simp
  then show ?thesis using at_head_recv [OF run_register(2)] by (intro exI [of _ "Join c"]) simp
next
  case (run_unregister c ch ord)
  have "go_ok (broker_sim (Leave c) h) r"
    using sim_unregister [of "h\<lparr>unregister := ch\<rparr>" c mgr ord] run_inv_hub [OF inv] run_unregister(1) by simp
  then show ?thesis using at_head_recv [OF run_unregister(2)] by (intro exI [of _ "Leave c"]) simp
next
  case (run_subscribe s ch)
  have "go_ok (broker_sim (Want (sub_client s) (sub_channel s)) h) r"
    using sim_subscribe [of "h\<lparr>subscribe := ch\<rparr>" "sub_client s" "sub_channel s" mgr]
      run_inv_hub [OF inv] run_subscribe(1) by (simp add: subscription_eta)
  then show ?thesis using at_head_recv [OF run_subscribe(2)]
    by (intro exI [of _ "Want (sub_client s) (sub_channel s)"]) (simp add: subscription_eta)
next
  case (run_unsubscribe s ch)
  have "go_ok (broker_sim (Unwant (sub_client s) (sub_channel s)) h) r"
    using sim_unsubscribe [of "sub_client s" "sub_channel s" "h\<lparr>unsubscribe := ch\<rparr>" mgr] run_unsubscribe(1)
    by (simp add: subscription_eta)
  then show ?thesis using at_head_recv [OF run_unsubscribe(2)]
    by (intro exI [of _ "Unwant (sub_client s) (sub_channel s)"]) (simp add: subscription_eta)
next
  case (run_incoming m ch ord)
  have "go_ok (broker_sim (Message (Channel m)) h) r"
    using sim_incoming [of "h\<lparr>incoming := ch\<rparr>" ord m] run_inv_hub [OF inv] run_incoming(1,3) by simp
  then show ?thesis using at_head_recv [OF run_incoming(2)]
    by (intro exI [of _ "Message (Channel m)"]) (auto simp: incomingMessage_eta intro: exI [of _ "Payload m"])
qed

lemma pending_step:
  assumes inv: "run_inv h" and e: "pending e h"
  shows "\<exists>r. run_step mgr h r \<and> go_ok (broker_sim e h) r"
proof (cases e)
  case (Join c)
  then obtain ch where q: "recv_chan (register h) = Received c ch" using e at_head_Received by fastforce
  have "fresh_client c h" using e Join run_inv_fresh [OF inv] by simp
  then show ?thesis
    using run_step.run_register [OF q, of mgr] sim_register [of "h\<lparr>register := ch\<rparr>" c mgr] run_inv_hub [OF inv] Join
    by auto
next
  case (Leave c)
  then obtain ch where q: "recv_chan (unregister h) = Received c ch" using e at_head_Received by fastforce
  have "\<exists>ord. c \<in> clients h \<longrightarrow> ranges ord (subscribed (heap h c))"
    using ranges_exists hub_inv_client(2) [OF run_inv_hub [OF inv]] by blast
  then obtain ord where o: "c \<in> clients h \<longrightarrow> ranges ord (subscribed (heap h c))" by blast
  from run_step.run_unregister [OF q o, of mgr] show ?thesis
    using sim_unregister [of "h\<lparr>unregister := ch\<rparr>" c mgr ord] run_inv_hub [OF inv] Leave by auto
next
  case (Want c ch)
  then obtain q where q: "recv_chan (subscribe h) = Received \<lparr>sub_client = c, sub_channel = ch\<rparr> q"
    using e at_head_Received by fastforce
  from run_step.run_subscribe [OF q, of mgr] show ?thesis
    using sim_subscribe [of "h\<lparr>subscribe := q\<rparr>" c ch mgr] run_inv_hub [OF inv] Want by auto
next
  case (Unwant c ch)
  then obtain q where q: "recv_chan (unsubscribe h) = Received \<lparr>sub_client = c, sub_channel = ch\<rparr> q"
    using e at_head_Received by fastforce
  from run_step.run_unsubscribe [OF q, of mgr] show ?thesis
    using sim_unsubscribe [of c ch "h\<lparr>unsubscribe := q\<rparr>" mgr] Unwant by auto
next
  case (Message ch)
  then obtain p q where q: "recv_chan (incoming h) = Received \<lparr>Channel = ch, Payload = p\<rparr> q"
    using e at_head_Received by fastforce
  have "finite (members h ch)" using hub_inv_finite [OF run_inv_hub [OF inv]] by (simp add: members_def)
  then obtain ord where o: "ranges ord (entry (channels h ch))"
    using ranges_exists hub_inv_members [OF run_inv_hub [OF inv], of ch] by auto
  then show ?thesis
    using run_step.run_incoming [OF q, of ord mgr] Message run_inv_hub [OF inv]
      sim_incoming [of "h\<lparr>incoming := q\<rparr>" ord "\<lparr>Channel = ch, Payload = p\<rparr>"] by auto
qed

text \<open>
  Every turn of the loop does to the broker of subscriptions exactly what the event at the
  head of the queue it serves says: a client joins with its control channels unless a cap is
  reached, leaves with all it had, is granted a valid channel Django allowed it, drops one, or
  a message passes; and only the clients the event concerns have anything put into their
  queues. Conversely the loop can serve whatever is at the head of a queue.
\<close>

theorem run_step_refines:
  assumes "run_inv h"
  shows "(\<forall>r. run_step mgr h r \<longrightarrow> (\<exists>e. pending e h \<and> go_ok (broker_sim e h) r)) \<and>
    (\<forall>e. pending e h \<longrightarrow> (\<exists>r. run_step mgr h r \<and> go_ok (broker_sim e h) r))"
proof (intro conjI allI impI)
  fix r
  assume "run_step mgr h r"
  then show "\<exists>e. pending e h \<and> go_ok (broker_sim e h) r" by (rule run_step_sim [OF assms])
next
  fix e
  assume "pending e h"
  then show "\<exists>r. run_step mgr h r \<and> go_ok (broker_sim e h) r" by (rule pending_step [OF assms])
qed

definition sample_pending :: "unit hub" where
  "sample_pending = sample_hub0\<lparr>register := \<lparr>buf = [7], cap = 8, closed = False\<rparr>\<rparr>"

lemma sample_pending_inv: "run_inv sample_pending"
  using sample_fresh
  by (simp add: run_inv_def sample_pending_def pending_ok_def fresh_client_def caps_ok_def owned_def
      sample_config_def)

lemma sample_pending_step:
  "run_step None sample_pending
     (handleRegister None 7 (sample_pending\<lparr>register := \<lparr>buf = [], cap = 8, closed = False\<rparr>\<rparr>))"
  by (rule run_step.run_register) (simp add: sample_pending_def recv_chan_def)

theorem run_step_refines_witness:
  "\<exists>r. run_step None sample_pending r \<and>
     go_ok (\<lambda>h'. abs_hub h' = \<lparr>attached = {7}, subs = {7} \<times> control_channels sample_client\<rparr>) r"
proof -
  have "pending (Join 7) sample_pending" by (simp add: sample_pending_def at_head_def)
  then obtain r where "run_step None sample_pending r" "go_ok (broker_sim (Join 7) sample_pending) r"
    using run_step_refines [OF sample_pending_inv, of None] by blast
  moreover have "abs_hub sample_pending = \<lparr>attached = {}, subs = {}\<rparr>"
    by (simp add: abs_hub_def sample_pending_def)
  ultimately show ?thesis
    by (auto simp: go_ok_Inr broker_sim_def broker_full_def sample_pending_def sample_config_def)
qed

end
