(* ===== verification/HubRedis.thy ===== *)
theory HubRedis
  imports HubProps
begin

text \<open>
  The hub over a channel manager. \<open>redis_sync\<close> relates the channels the hub has entries for
  to those the manager holds; the locale \<open>channel_manager\<close> carries it through the handlers
  for any manager that keeps the contract, and the interpretation \<open>rsub\<close> of
  \<open>RedisSub\<close> gives it for the Redis subscriber.
\<close>

section \<open>The hub and its manager in step\<close>

text \<open>The channels whose \<open>Subscribe\<close> call the hub logged as failed.\<close>

definition subscribe_failures :: "log_rec list \<Rightarrow> string set" where
  "subscribe_failures log =
     {ch. \<exists>r \<in> set log. msg r = ''redis subscribe failed'' \<and> (''channel'', LString ch) \<in> set (attrs r)}"

lemma subscribe_failures_simps [simp]:
  "subscribe_failures [] = {}"
  "subscribe_failures (xs @ ys) = subscribe_failures xs \<union> subscribe_failures ys"
  "subscribe_failures [r] =
     (if msg r = ''redis subscribe failed'' then {ch. (''channel'', LString ch) \<in> set (attrs r)} else {})"
  by (auto simp: subscribe_failures_def)

definition redis_sync ::
  "('m \<Rightarrow> string set) \<Rightarrow> ('m \<Rightarrow> bool) \<Rightarrow> ('m \<Rightarrow> bool) \<Rightarrow> 'm hub \<Rightarrow> bool" where
  "redis_sync held ok faulty h \<longleftrightarrow> ok (manager h) \<and> held (manager h) \<subseteq> dom (channels h) \<and>
     dom (channels h) \<subseteq> held (manager h) \<union> subscribe_failures (hub_log h) \<and>
     (subscribe_failures (hub_log h) \<noteq> {} \<longrightarrow> faulty (manager h))"

lemma redis_sync_same:
  "redis_sync held ok faulty h \<Longrightarrow> manager h' = manager h \<Longrightarrow> dom (channels h') = dom (channels h) \<Longrightarrow>
     subscribe_failures (hub_log h) = subscribe_failures (hub_log h') \<Longrightarrow> redis_sync held ok faulty h'"
  by (auto simp: redis_sync_def)

lemma deliverFrame_manager:
  "go_ok (\<lambda>h'. manager h' = manager h \<and> channels h' = channels h \<and> hub_log h' = hub_log h)
     (deliverFrame c p h)" if "open_client (heap h c)"
  using that by (simp add: deliverFrame_open)

context channel_manager
begin

lemma sync_addSubscription:
  assumes sync: "redis_sync held ok faulty h"
  shows "redis_sync held ok faulty (addSubscription (Some M) c ch h)"
proof (cases "ch \<in> subscribed (heap h c)")
  case True
  then show ?thesis using sync by (simp add: addSubscription_def)
next
  case False
  show ?thesis
  proof (cases "channels h ch")
    case (Some cs)
    with False sync show ?thesis
      by (intro redis_sync_same [OF sync])
         (auto simp: addSubscription_def Let_def)
  next
    case None
    then have n: "ch \<notin> held (manager h)" and k: "ok (manager h)" using sync by (auto simp: redis_sync_def)
    obtain m e where s: "Subscribe M ch (manager h) = (m, e)" by (cases "Subscribe M ch (manager h)")
    have "ok m" using subscribe_keeps_ok [OF k n] s by simp
    moreover have "held m = (if e = None then insert ch (held (manager h)) else held (manager h))"
      using subscribe_held [OF k n] s by simp
    ultimately show ?thesis
      using sync False None faulty_subscribe [of "manager h" ch] subscribe_faulty [of ch "manager h" m] s
      by (cases e) (auto simp: redis_sync_def addSubscription_def Let_def)
  qed
qed

lemma sync_removeFromChannel:
  assumes sync: "redis_sync held ok faulty h"
  shows "redis_sync held ok faulty (removeFromChannel (Some M) c ch h)"
proof (cases "channels h ch")
  case None
  then show ?thesis using sync by (simp add: removeFromChannel_def)
next
  case (Some cs)
  show ?thesis
  proof (cases "cs - {c} = {}")
    case False
    with Some show ?thesis
      by (intro redis_sync_same [OF sync]) (auto simp: removeFromChannel_def)
  next
    case True
    obtain m e where s: "Unsubscribe M ch (manager h) = (m, e)" by (cases "Unsubscribe M ch (manager h)")
    have k: "ok (manager h)" using sync by (simp add: redis_sync_def)
    have "ok m" "held m = held (manager h) - {ch}"
      using unsubscribe_keeps_ok [OF k, of ch] unsubscribe_drops [OF k, of ch] s by simp_all
    then show ?thesis
      using sync True Some faulty_unsubscribe [of "manager h" ch] s
      by (cases e) (auto simp: redis_sync_def removeFromChannel_def Let_def)
  qed
qed

lemma sync_fold:
  "redis_sync held ok faulty h \<Longrightarrow> redis_sync held ok faulty (fold (removeFromChannel (Some M) c) xs h)"
  by (induction xs arbitrary: h) (simp_all add: sync_removeFromChannel)

lemma sync_register:
  assumes "redis_sync held ok faulty h" and "hub_inv h" and "\<not> closed (disconnect (heap h c))"
  shows "go_ok (redis_sync held ok faulty) (handleRegister (Some M) c h)"
proof -
  have "redis_sync held ok faulty (registered (Some M) c h)"
    unfolding registered_def Let_def
    by (intro sync_addSubscription redis_sync_same [OF assms(1)]) simp_all
  moreover have "redis_sync held ok faulty (upd_client c f (hub_note l ''refused client'' kvs h))" for f l kvs
    by (rule redis_sync_same [OF assms(1)]) simp_all
  ultimately show ?thesis
    using refuse_open [OF assms(3)] by (simp add: handleRegister_cases [OF assms(2)])
qed

lemma sync_unregister:
  assumes "redis_sync held ok faulty h" and "c \<in> clients h \<Longrightarrow> open_client (heap h c)"
  shows "go_ok (redis_sync held ok faulty) (handleUnregister (Some M) ord c h)"
proof -
  let ?h = "h\<lparr>clients := clients h - {c}, userClients := (userClients h)
      (userID (heap h c) := drop_member c (userClients h (userID (heap h c))))\<rparr>"
  have "redis_sync held ok faulty ?h" by (rule redis_sync_same [OF assms(1)]) simp_all
  then have f: "redis_sync held ok faulty (fold (removeFromChannel (Some M) c) ord ?h)" by (rule sync_fold)
  have "redis_sync held ok faulty (unregistered (Some M) ord c h)"
    unfolding unregistered_def by (rule redis_sync_same [OF f]) simp_all
  then show ?thesis using handleUnregister_cases [OF assms(2)] assms(1) by simp
qed

lemma sync_subscribe:
  assumes "redis_sync held ok faulty h" and "hub_inv h"
  shows "go_ok (redis_sync held ok faulty) (handleClientSubscribe (Some M) s h)"
proof -
  have "go_ok (redis_sync held ok faulty) (sendError c ch r h)" if "c \<in> clients h" for c ch r
    unfolding sendError_def
    using deliverFrame_manager [OF hub_inv_client(1) [OF assms(2) that]]
    by (rule go_ok_mono) (auto intro: redis_sync_same [OF assms(1)])
  then show ?thesis
    using assms(1) by (auto simp: handleClientSubscribe_cases Let_def sync_addSubscription)
qed

lemma sync_unsubscribe:
  assumes "redis_sync held ok faulty h"
  shows "redis_sync held ok faulty (handleClientUnsubscribe (Some M) s h)"
proof -
  have "redis_sync held ok faulty (upd_client c f h)" for c f
    by (rule redis_sync_same [OF assms]) simp_all
  then show ?thesis using assms by (simp add: handleClientUnsubscribe_cases Let_def sync_removeFromChannel)
qed

lemma sync_incoming:
  assumes "redis_sync held ok faulty h" and "hub_inv h" and "ranges ord (entry (channels h (Channel m)))"
  shows "go_ok (redis_sync held ok faulty) (handleIncoming ord m h)"
  unfolding handleIncoming_cases [OF assms(2,3)] go_ok_simps
  by (rule redis_sync_same [OF assms(1)]) auto

lemma sync_run_step:
  assumes step: "run_step (Some M) h r" and inv: "run_inv h" and sync: "redis_sync held ok faulty h"
  shows "go_ok (redis_sync held ok faulty) r"
proof -
  have hi: "hub_inv h" using inv by (simp add: run_inv_def)
  have q: "redis_sync held ok faulty (h\<lparr>register := a\<rparr>)" "redis_sync held ok faulty (h\<lparr>unregister := a\<rparr>)"
    "redis_sync held ok faulty (h\<lparr>subscribe := b\<rparr>)" "redis_sync held ok faulty (h\<lparr>unsubscribe := b\<rparr>)"
    "redis_sync held ok faulty (h\<lparr>incoming := d\<rparr>)" for a b d
    by (rule redis_sync_same [OF sync]; simp)+
  show ?thesis
    using step
  proof cases
    case (run_register c ch)
    then have "fresh_client c h"
      using inv by (auto simp: recv_chan_Received run_inv_def pending_ok_def)
    then show ?thesis
      using run_register(1) sync_register [OF q(1)] hi by (simp add: fresh_client_def open_client_def)
  next
    case (run_unregister c ch ord)
    then show ?thesis using sync_unregister [OF q(2)] hub_inv_client(1) [OF hi] by simp
  next
    case (run_subscribe s ch)
    then show ?thesis using sync_subscribe [OF q(3)] hi by simp
  next
    case (run_unsubscribe s ch)
    then show ?thesis using sync_unsubscribe [OF q(4)] by simp
  next
    case (run_incoming m ch ord)
    then show ?thesis using sync_incoming [OF q(5)] hi by simp
  qed
qed

end

section \<open>What the hub does to its manager\<close>

lemma addSubscription_manager:
  assumes "P (manager h)" and "\<And>m. P m \<Longrightarrow> P (fst (Subscribe M ch m))"
  shows "P (manager (addSubscription (Some M) c ch h))"
  using assms(1) assms(2) [OF assms(1)]
  by (cases "Subscribe M ch (manager h)") (auto simp: addSubscription_def Let_def split: option.split)

lemma removeFromChannel_manager:
  assumes "P (manager h)" and "\<And>ch m. P m \<Longrightarrow> P (fst (Unsubscribe M ch m))"
  shows "P (manager (removeFromChannel (Some M) c ch h))"
  using assms(1) assms(2) [OF assms(1), of ch]
  by (cases "Unsubscribe M ch (manager h)") (auto simp: removeFromChannel_def Let_def split: option.split)

lemma fold_removeFromChannel_manager:
  "P (manager h) \<Longrightarrow> (\<And>ch m. P m \<Longrightarrow> P (fst (Unsubscribe M ch m))) \<Longrightarrow>
     P (manager (fold (removeFromChannel (Some M) c) xs h))"
  by (induction xs arbitrary: h) (simp_all add: removeFromChannel_manager)

text \<open>
  Whatever the hub does to its manager keeps a predicate that \<open>Unsubscribe\<close> keeps, and
  \<open>Subscribe\<close> on a channel that a registered client, or one to be registered, may hold.
\<close>

lemma run_step_manager:
  assumes step: "run_step (Some M) h r" and inv: "run_inv h" and P: "P (manager h)"
    and sub: "\<And>c ch m. c \<in> clients h \<union> set (buf (register h)) \<Longrightarrow> may_hold (heap h c) ch \<Longrightarrow> P m \<Longrightarrow>
      P (fst (Subscribe M ch m))"
    and unsub: "\<And>ch m. P m \<Longrightarrow> P (fst (Unsubscribe M ch m))"
  shows "go_ok (\<lambda>h'. P (manager h')) r"
proof -
  note hi = run_inv_hub [OF inv]
  note mgr = fold_removeFromChannel_manager [of P _ M, OF _ unsub] removeFromChannel_manager [of P _ M, OF _ unsub]
  have add: "P (manager (addSubscription (Some M) d ch g))"
    if "P (manager g)" "c \<in> clients h \<union> set (buf (register h))" "may_hold (heap h c) ch" for c ch d g
    using addSubscription_manager [of P g M ch d] that sub by blast
  show ?thesis
    using step
  proof cases
    case (run_register c ch)
    have c: "c \<in> clients h \<union> set (buf (register h))" using run_register(2) by (auto simp: recv_chan_Received)
    have "\<not> closed (disconnect (heap h c))" by (rule pending_open [OF inv run_register(2)])
    moreover have "may_hold (heap h c) (session_channel (sessionKey (heap h c)))"
      "may_hold (heap h c) (user_channel (userID (heap h c)))"
      by (simp_all add: may_hold_def control_channels_def)
    ultimately show ?thesis
      using run_register(1) hi P
      by (simp add: handleRegister_cases refuse_open registered_def Let_def add [OF _ c])
  next
    case (run_unregister c ch ord)
    then show ?thesis
      using handleUnregister_cases [of c "h\<lparr>unregister := ch\<rparr>" "Some M" ord] hub_inv_client(1) [OF hi] P
      by (simp add: unregistered_def mgr)
  next
    case (run_subscribe s ch)
    have "P (manager (addSubscription (Some M) (sub_client s) (sub_channel s) (h\<lparr>subscribe := ch\<rparr>)))"
      if "sub_client s \<in> clients h" "valid_channel (sub_channel s)"
        "sub_channel s \<in> allowedChannels (heap h (sub_client s))"
      using that P by (intro add [of _ "sub_client s"]) (auto simp: may_hold_def valid_channel_def)
    then show ?thesis
      using run_subscribe(1) deliverFrame_open [OF hub_inv_client(1), of "h\<lparr>subscribe := ch\<rparr>"] hi P
      by (simp add: handleClientSubscribe_cases Let_def sendError_def)
  next
    case (run_unsubscribe s ch)
    then show ?thesis using P by (simp add: handleClientUnsubscribe_cases Let_def mgr)
  next
    case (run_incoming m ch ord)
    then show ?thesis using hi P handleIncoming_cases [of "h\<lparr>incoming := ch\<rparr>" ord m] by simp
  qed
qed

section \<open>What a failed SUBSCRIBE leaves\<close>

text \<open>
  A SUBSCRIBE that failed is not tried again for the next client that joins the channel: the
  hub has an entry for the channel by then, so the manager is not called.
\<close>

theorem failed_subscribe_not_retried:
  assumes "channels h ch = None" and "ch \<notin> subscribed (heap h c)"
    and "Subscribe M ch (manager h) = (m, Some e)"
    and "h1 = addSubscription (Some M) c ch h" and "h2 = addSubscription (Some M) d ch h1"
  shows "manager h2 = m \<and> hub_log h2 = hub_log h1 \<and> ch \<in> dom (channels h2)"
  using assms by (auto simp: addSubscription_def Let_def)

text \<open>
  A malformed message on a session's control channel puts the session key itself in the
  hub's log, as part of the channel's name.
\<close>

theorem malformed_control_logs_key:
  assumes "hub_inv h" and "ranges ord (entry (channels h (session_channel key)))"
    and "parse_control data = None"
  shows "go_ok (\<lambda>h'. session_channel key \<in> logged_strings (hub_log h'))
    (handleIncoming ord \<lparr>Channel = session_channel key, Payload = data\<rparr> h)"
  using assms by (subst handleIncoming_cases) simp_all

end
