(* ===== verification/Pumps.thy ===== *)
theory Pumps
  imports Hub
begin

text \<open>
  \<open>gateway/client.go\<close>: the two goroutines of a connection.

  The connection itself (\<open>websocket.Conn\<close>) is not part of the repository: what the pumps do
  to it and to the hub's channels is a list of events, and what its \<open>Read\<close>, \<open>Write\<close> and
  \<open>Ping\<close> return is input. \<open>ReadPump\<close> is a function of the outcomes of its reads, each with
  whether the context was cancelled when the loop looked; \<open>WritePump\<close> is a function of the
  \<open>select\<close> cases it takes, and \<open>wp_recv\<close> says which of them the client's queues offer.
\<close>

section \<open>A new client\<close>

text \<open>Go's \<open>%\<close> on integers: the sign of the dividend.\<close>

definition go_rem :: "int \<Rightarrow> int \<Rightarrow> int" where
  "go_rem a b = sgn a * (\<bar>a\<bar> mod \<bar>b\<bar>)"

definition generateConnectionID :: "int \<Rightarrow> counter \<Rightarrow> counter \<times> string" where
  "generateConnectionID nano k =
     (let (k', n) = counter_next k
      in (k', formatUserID n @ ''-'' @ formatUserID (go_rem nano 1000000)))"

definition newPumpClient :: "int \<Rightarrow> int \<Rightarrow> int \<Rightarrow> string \<Rightarrow> counter \<Rightarrow> counter \<times> client" where
  "newPumpClient nano now uid key k =
     (let (k', cid) = generateConnectionID nano k
      in (k', \<lparr>send = make_chan 64, disconnect = make_chan 1, userID = uid, sessionKey = key,
               connectionID = cid, allowedChannels = {}, subscribed = {}, connectedAt = now\<rparr>))"

section \<open>Frames from the peer\<close>

record clientFrame =
  cf_Action :: string
  cf_Channel :: string

definition frame_field :: "string \<Rightarrow> json \<Rightarrow> clientFrame \<Rightarrow> clientFrame option" where
  "frame_field k v p =
     (if is_field ''action'' k then map_option (\<lambda>s. p\<lparr>cf_Action := s\<rparr>) (decode_string v (cf_Action p))
      else if is_field ''channel'' k then map_option (\<lambda>s. p\<lparr>cf_Channel := s\<rparr>) (decode_string v (cf_Channel p))
      else Some p)"

definition parse_frame :: "bytes \<Rightarrow> clientFrame option" where
  "parse_frame data = Unmarshal frame_field data \<lparr>cf_Action = [], cf_Channel = []\<rparr>"

section \<open>Events\<close>

datatype conn_event =
    SetReadLimit int
  | StartRead int
  | PostSubscribe subscription
  | PostUnsubscribe subscription
  | PumpLog log_rec
  | CloseNow
  | PostUnregister cid
  | ConnWrite bytes
  | ConnPing int
  | ConnClose int string

section \<open>ReadPump\<close>

datatype read_outcome =
    ReadFrame bytes
  | ReadFailed go_error

text \<open>The client's own fields that the pumps read: who it is and its connection id.\<close>

definition frame_events :: "cid \<Rightarrow> string \<Rightarrow> bytes \<Rightarrow> conn_event list" where
  "frame_events c cn data =
     (case parse_frame data of
        None \<Rightarrow> [PumpLog (log_entry LevelDebug ''malformed client frame'' [(''connection_id'', LString cn)])]
      | Some fr \<Rightarrow>
          if cf_Action fr = ''subscribe'' then
            [PostSubscribe \<lparr>sub_client = c, sub_channel = cf_Channel fr\<rparr>]
          else if cf_Action fr = ''unsubscribe'' then
            [PostUnsubscribe \<lparr>sub_client = c, sub_channel = cf_Channel fr\<rparr>]
          else
            [PumpLog (log_entry LevelDebug ''unknown client action''
               [(''connection_id'', LString cn), (''action'', LString (cf_Action fr))])])"

text \<open>One turn of the loop: what it does, and whether the loop goes on.\<close>

definition read_step :: "config \<Rightarrow> cid \<Rightarrow> string \<Rightarrow> bool \<times> read_outcome \<Rightarrow> conn_event list \<times> bool" where
  "read_step cfg c cn inp =
     (case inp of (cancelled, rd) \<Rightarrow>
        if cancelled then ([], False)
        else case rd of
          ReadFailed e \<Rightarrow>
            ([StartRead (PongTimeout cfg),
              PumpLog (log_entry LevelDebug ''read pump exit''
                [(''connection_id'', LString cn), (''err'', LError e)])], False)
        | ReadFrame data \<Rightarrow> (StartRead (PongTimeout cfg) # frame_events c cn data, True))"

fun read_loop :: "config \<Rightarrow> cid \<Rightarrow> string \<Rightarrow> (bool \<times> read_outcome) list \<Rightarrow> conn_event list \<times> bool" where
  "read_loop cfg c cn [] = ([], False)"
| "read_loop cfg c cn (inp # inps) =
     (case read_step cfg c cn inp of
        (es, False) \<Rightarrow> (es, True)
      | (es, True) \<Rightarrow> (case read_loop cfg c cn inps of (es', ended) \<Rightarrow> (es @ es', ended)))"

text \<open>The pump over the inputs it has had so far; the boolean says whether it has returned.\<close>

definition ReadPump :: "config \<Rightarrow> cid \<Rightarrow> string \<Rightarrow> (bool \<times> read_outcome) list \<Rightarrow> conn_event list \<times> bool" where
  "ReadPump cfg c cn inps =
     (case read_loop cfg c cn inps of (es, ended) \<Rightarrow>
        (SetReadLimit (MaxMessageSize cfg) # es @ (if ended then [CloseNow, PostUnregister c] else []), ended))"

section \<open>WritePump\<close>

definition StatusNormalClosure :: int where "StatusNormalClosure = 1000"
definition StatusGoingAway :: int where "StatusGoingAway = 1001"

definition NewTicker :: "int \<Rightarrow> unit go" where
  "NewTicker d = (if d \<le> 0 then Inl NonPositiveTicker else Inr ())"

text \<open>\<open>time.Since\<close>: a difference that does not fit is cut off at the ends of the range.\<close>

definition time_Since :: "int \<Rightarrow> int \<Rightarrow> int" where
  "time_Since now t = max (- (2 ^ 63)) (min (2 ^ 63 - 1) (now - t))"

text \<open>
  The argument of \<open>time.After\<close>: 64-bit subtraction. \<open>now\<close> is the time at which the pump
  starts.
\<close>

definition lifetime_wait :: "config \<Rightarrow> int \<Rightarrow> client \<Rightarrow> int" where
  "lifetime_wait cfg now k = sint (word_of_int (ConnectionMaxLifetime cfg - time_Since now (connectedAt k)) :: 64 word)"

datatype wp_case =
    WpCtxDone
  | WpLifetime
  | WpDisconnect disconnectReason
  | WpPayload bytes "go_error option"
  | WpSendClosed
  | WpTick "go_error option"

definition write_step :: "config \<Rightarrow> string \<Rightarrow> wp_case \<Rightarrow> conn_event list \<times> bool" where
  "write_step cfg cn cs =
     (case cs of
        WpCtxDone \<Rightarrow> ([ConnClose StatusGoingAway ''shutdown''], False)
      | WpLifetime \<Rightarrow> ([ConnClose StatusNormalClosure ''lifetime''], False)
      | WpDisconnect d \<Rightarrow>
          if Code d = 0 then ([], False) else ([ConnClose (Code d) (Reason d)], False)
      | WpSendClosed \<Rightarrow> ([ConnClose StatusNormalClosure ''hub_closed''], False)
      | WpPayload p err \<Rightarrow>
          (case err of
             None \<Rightarrow> ([ConnWrite p], True)
           | Some e \<Rightarrow> ([ConnWrite p, PumpLog (log_entry LevelDebug ''write error''
               [(''connection_id'', LString cn), (''err'', LError e)])], False))
      | WpTick err \<Rightarrow>
          (case err of
             None \<Rightarrow> ([ConnPing (PongTimeout cfg)], True)
           | Some e \<Rightarrow> ([ConnPing (PongTimeout cfg), PumpLog (log_entry LevelDebug ''ping failed''
               [(''connection_id'', LString cn), (''err'', LError e)])], False)))"

fun write_loop :: "config \<Rightarrow> string \<Rightarrow> wp_case list \<Rightarrow> conn_event list \<times> bool" where
  "write_loop cfg cn [] = ([], False)"
| "write_loop cfg cn (cs # css) =
     (case write_step cfg cn cs of
        (es, False) \<Rightarrow> (es, True)
      | (es, True) \<Rightarrow> (case write_loop cfg cn css of (es', ended) \<Rightarrow> (es @ es', ended)))"

definition WritePump :: "config \<Rightarrow> string \<Rightarrow> wp_case list \<Rightarrow> (conn_event list \<times> bool) go" where
  "WritePump cfg cn css = go_bind (NewTicker (PingInterval cfg)) (\<lambda>_. Inr (write_loop cfg cn css))"

text \<open>Whether the client's queues offer a case of the \<open>select\<close>, and what taking it leaves.\<close>

definition wp_recv :: "wp_case \<Rightarrow> client \<Rightarrow> client option" where
  "wp_recv cs k =
     (case cs of
        WpDisconnect d \<Rightarrow>
          (case recv_chan (disconnect k) of
             Received d' ch \<Rightarrow> if d' = d then Some (k\<lparr>disconnect := ch\<rparr>) else None
           | _ \<Rightarrow> None)
      | WpPayload p _ \<Rightarrow>
          (case recv_chan (send k) of
             Received p' ch \<Rightarrow> if p' = p then Some (k\<lparr>send := ch\<rparr>) else None
           | _ \<Rightarrow> None)
      | WpSendClosed \<Rightarrow>
          (case recv_chan (send k) of ChannelClosed \<Rightarrow> Some k | _ \<Rightarrow> None)
      | _ \<Rightarrow> Some k)"

section \<open>Properties of the pumps\<close>

text \<open>The requests a frame asks for, and the frames a read pump gets to.\<close>

definition frame_posts :: "cid \<Rightarrow> bytes \<Rightarrow> conn_event list" where
  "frame_posts c data =
     (case parse_frame data of
        Some fr \<Rightarrow>
          if cf_Action fr = ''subscribe'' then [PostSubscribe \<lparr>sub_client = c, sub_channel = cf_Channel fr\<rparr>]
          else if cf_Action fr = ''unsubscribe'' then [PostUnsubscribe \<lparr>sub_client = c, sub_channel = cf_Channel fr\<rparr>]
          else []
      | None \<Rightarrow> [])"

definition ends_read :: "bool \<times> read_outcome \<Rightarrow> bool" where
  "ends_read inp \<longleftrightarrow> fst inp \<or> (\<exists>e. snd inp = ReadFailed e)"

definition frames_read :: "(bool \<times> read_outcome) list \<Rightarrow> bytes list" where
  "frames_read inps = [data. (_, ReadFrame data) \<leftarrow> takeWhile (\<lambda>i. \<not> ends_read i) inps]"

fun is_post :: "conn_event \<Rightarrow> bool" where
  "is_post (PostSubscribe s) = True"
| "is_post (PostUnsubscribe s) = True"
| "is_post (PostUnregister c) = True"
| "is_post _ = False"

fun touches_peer :: "conn_event \<Rightarrow> bool" where
  "touches_peer (ConnWrite p) = True"
| "touches_peer (ConnPing t) = True"
| "touches_peer (ConnClose co r) = True"
| "touches_peer _ = False"

lemma frame_events_posts:
  "filter is_post (frame_events c cn data) = frame_posts c data"
  "filter touches_peer (frame_events c cn data) = []"
  by (auto simp: frame_events_def frame_posts_def split: option.split)

lemma read_loop_posts:
  "filter is_post (fst (read_loop cfg c cn inps)) = concat (map (frame_posts c) (frames_read inps)) \<and>
   snd (read_loop cfg c cn inps) = list_ex ends_read inps \<and>
   filter touches_peer (fst (read_loop cfg c cn inps)) = []"
proof (induction inps)
  case Nil
  then show ?case by (simp add: frames_read_def)
next
  case (Cons i inps)
  obtain canc rd where i: "i = (canc, rd)" by (cases i)
  show ?case
  proof (cases "ends_read i")
    case True
    then have "read_step cfg c cn i = ([], False) \<or>
        (\<exists>e. read_step cfg c cn i = ([StartRead (PongTimeout cfg),
              PumpLog (log_entry LevelDebug ''read pump exit''
                [(''connection_id'', LString cn), (''err'', LError e)])], False))"
      by (cases rd) (auto simp: i ends_read_def read_step_def)
    with True show ?thesis by (auto simp: frames_read_def)
  next
    case False
    then obtain data where d: "rd = ReadFrame data" "\<not> canc" by (cases rd) (auto simp: i ends_read_def)
    have fr: "frames_read (i # inps) = data # frames_read inps"
      using False by (simp add: frames_read_def i d)
    show ?thesis
      using Cons.IH False frame_events_posts [of c cn data] fr
      by (auto simp: i d read_step_def split: prod.splits)
  qed
qed

text \<open>
  C29: the requests a read pump posts to the hub are, in order, the subscribe and unsubscribe
  actions of the well-formed frames it reads before it ends, for its own client; it ends at
  the first cancelled context or failed read, with exactly one unregister request as its last
  post; and it never writes to the peer.
\<close>

theorem ReadPump_posts:
  "filter is_post (fst (ReadPump cfg c cn inps)) =
     concat (map (frame_posts c) (frames_read inps)) @
     (if list_ex ends_read inps then [PostUnregister c] else []) \<and>
   snd (ReadPump cfg c cn inps) = list_ex ends_read inps \<and>
   filter touches_peer (fst (ReadPump cfg c cn inps)) = []"
  using read_loop_posts [of cfg c cn inps] by (auto simp: ReadPump_def split: prod.splits)

text \<open>What a write pump sends the peer, and the queue it takes it from.\<close>

fun wp_run :: "wp_case list \<Rightarrow> client \<Rightarrow> client option" where
  "wp_run [] k = Some k"
| "wp_run (cs # css) k = Option.bind (wp_recv cs k) (wp_run css)"

definition written :: "conn_event list \<Rightarrow> bytes list" where
  "written es = [p. ConnWrite p \<leftarrow> es]"

definition closes :: "conn_event list \<Rightarrow> (int \<times> string) list" where
  "closes es = [(co, r). ConnClose co r \<leftarrow> es]"

lemma written_simps [simp]:
  "written [] = []" "written (es @ es') = written es @ written es'"
  "written (e # es) = (case e of ConnWrite p \<Rightarrow> [p] | _ \<Rightarrow> []) @ written es"
  by (auto simp: written_def split: conn_event.split)

lemma closes_simps [simp]:
  "closes [] = []" "closes (es @ es') = closes es @ closes es'"
  "closes (e # es) = (case e of ConnClose co r \<Rightarrow> [(co, r)] | _ \<Rightarrow> []) @ closes es"
  by (auto simp: closes_def split: conn_event.split)

lemma wp_recv_send:
  assumes "wp_recv cs k = Some k'"
  shows "written (fst (write_step cfg cn cs)) @ buf (send k') = buf (send k)"
  using assms
  by (auto simp: wp_recv_def write_step_def recv_chan_def split: wp_case.splits recv.splits if_splits
      list.splits option.splits)

text \<open>The payloads a write pump gets to: those of the cases up to the one that ends it.\<close>

fun ends_write :: "wp_case \<Rightarrow> bool" where
  "ends_write (WpPayload p err) = (err \<noteq> None)"
| "ends_write (WpTick err) = (err \<noteq> None)"
| "ends_write _ = True"

fun write_prefix :: "wp_case list \<Rightarrow> wp_case list" where
  "write_prefix [] = []"
| "write_prefix (cs # css) = (if ends_write cs then [cs] else cs # write_prefix css)"

lemma write_step_ends: "snd (write_step cfg cn cs) = (\<not> ends_write cs)"
  by (cases cs) (auto simp: write_step_def split: option.splits)

lemma write_step_closes:
  "\<not> ends_write cs \<Longrightarrow> closes (fst (write_step cfg cn cs)) = []"
  "length (closes (fst (write_step cfg cn cs))) \<le> Suc 0"
  "written (fst (write_step cfg cn cs)) = (case cs of WpPayload p _ \<Rightarrow> [p] | _ \<Rightarrow> [])"
  by (cases cs; auto simp: write_step_def split: option.splits)+

lemma write_loop_simps [simp]:
  "write_loop cfg cn (cs # css) =
     (if ends_write cs then (fst (write_step cfg cn cs), True)
      else (fst (write_step cfg cn cs) @ fst (write_loop cfg cn css), snd (write_loop cfg cn css)))"
  using write_step_ends [of cfg cn cs]
  by (cases "write_step cfg cn cs") (auto split: bool.splits prod.splits)

declare write_loop.simps(2) [simp del]

text \<open>
  C30: a write pump panics exactly when the configured ping interval is not positive;
  otherwise it writes the payloads it takes from the queue up to its end, unchanged and in
  order, and sends at most one close frame, which ends it.
\<close>

theorem WritePump_writes:
  "WritePump cfg cn css =
     (if PingInterval cfg \<le> 0 then Inl NonPositiveTicker else Inr (write_loop cfg cn css)) \<and>
   written (fst (write_loop cfg cn css)) = [p. WpPayload p _ \<leftarrow> write_prefix css] \<and>
   length (closes (fst (write_loop cfg cn css))) \<le> 1 \<and>
   (closes (fst (write_loop cfg cn css)) \<noteq> [] \<longrightarrow> snd (write_loop cfg cn css))"
proof -
  have "written (fst (write_loop cfg cn css)) = [p. WpPayload p _ \<leftarrow> write_prefix css] \<and>
      length (closes (fst (write_loop cfg cn css))) \<le> 1 \<and>
      (closes (fst (write_loop cfg cn css)) \<noteq> [] \<longrightarrow> snd (write_loop cfg cn css))"
    by (induction css) (auto simp: write_step_closes split: wp_case.split)
  then show ?thesis by (simp add: WritePump_def NewTicker_def)
qed

theorem WritePump_writes_witness:
  "closes (fst (write_loop sample_config ''1-0'' [WpPayload ''hi'' None, WpDisconnect \<lparr>Code = 4401, Reason = ''session_revoked''\<rparr>])) \<noteq> [] \<and>
   snd (write_loop sample_config ''1-0'' [WpPayload ''hi'' None, WpDisconnect \<lparr>Code = 4401, Reason = ''session_revoked''\<rparr>])"
  using WritePump_writes [of sample_config "''1-0''"
      "[WpPayload ''hi'' None, WpDisconnect \<lparr>Code = 4401, Reason = ''session_revoked''\<rparr>]"]
  by (simp add: write_step_def)

lemma sint64: "int64_range i \<Longrightarrow> sint (word_of_int i :: 64 word) = i"
  by (simp add: int64_range_def signed_of_int signed_take_bit_int_eq_self)

text \<open>
  The lifetime timer of a connection fires at the time it was accepted plus the
  configured lifetime, however late the write pump starts, as long as the differences fit 64
  bits.
\<close>

theorem lifetime_deadline:
  assumes "int64_range (now - connectedAt k)" and "int64_range (ConnectionMaxLifetime cfg - (now - connectedAt k))"
  shows "now + lifetime_wait cfg now k = connectedAt k + ConnectionMaxLifetime cfg"
proof -
  have "time_Since now (connectedAt k) = now - connectedAt k"
    using assms(1) by (simp add: time_Since_def int64_range_def)
  then have "lifetime_wait cfg now k = ConnectionMaxLifetime cfg - (now - connectedAt k)"
    unfolding lifetime_wait_def using sint64 [OF assms(2)] by simp
  then show ?thesis by simp
qed

theorem lifetime_deadline_witness:
  "1000 + lifetime_wait sample_config 1000 \<lparr>send = make_chan 64, disconnect = make_chan 1, userID = 5,
     sessionKey = ''k1'', connectionID = ''1-0'', allowedChannels = {}, subscribed = {}, connectedAt = 400\<rparr> =
   400 + 12 * Hour"
  using lifetime_deadline [of 1000 "\<lparr>send = make_chan 64, disconnect = make_chan 1, userID = 5,
     sessionKey = ''k1'', connectionID = ''1-0'', allowedChannels = {}, subscribed = {}, connectedAt = 400\<rparr>" sample_config]
  by (simp add: sample_config_def int64_range_def Hour_def Minute_def Second_def)

text \<open>The connection ids a process hands out, given the clock at each call.\<close>

fun connection_ids :: "int list \<Rightarrow> counter \<Rightarrow> string list" where
  "connection_ids [] k = []"
| "connection_ids (nano # nanos) k =
     (case generateConnectionID nano k of (k', cn) \<Rightarrow> cn # connection_ids nanos k')"

lemma FormatInt_no_dash: "0 \<le> i \<Longrightarrow> CHR ''-'' \<notin> set (FormatInt i)"
  using dec_nat_digits [of "nat i"] minus_not_digit by (auto simp: FormatInt_def)

lemma FormatInt_dash_inj:
  assumes "FormatInt (int i) @ ''-'' @ x = FormatInt (int j) @ ''-'' @ y"
  shows "i = j"
proof -
  have "takeWhile (\<lambda>c. c \<noteq> CHR ''-'') (FormatInt (int n) @ ''-'' @ z) = FormatInt (int n)" for n z
    using FormatInt_no_dash [of "int n"] by (subst takeWhile_append2) auto
  with assms have "FormatInt (int i) = FormatInt (int j)" by metis
  then show ?thesis by (simp add: FormatInt_inj)
qed

lemma counter_next_nat:
  assumes "Suc n < 2 ^ 63"
  shows "counter_next \<lparr>cnt = of_nat n\<rparr> = (\<lparr>cnt = of_nat (Suc n)\<rparr>, int (Suc n))"
proof -
  have "sint (word_of_int (int (Suc n)) :: 64 word) = int (Suc n)"
    using assms by (intro sint64) (simp add: int64_range_def)
  moreover have w: "(of_nat n + 1 :: 64 word) = word_of_int (int (Suc n))" by simp
  ultimately have "sint (of_nat n + 1 :: 64 word) = int (Suc n)" by (simp only: w)
  then show ?thesis by (simp add: counter_next_def Let_def add.commute)
qed

lemma connection_ids_numbered:
  assumes "m + length nanos < 2 ^ 63"
  shows "distinct (connection_ids nanos \<lparr>cnt = of_nat m\<rparr>) \<and>
    (\<forall>cn \<in> set (connection_ids nanos \<lparr>cnt = of_nat m\<rparr>). \<exists>j x. m < j \<and> cn = FormatInt (int j) @ ''-'' @ x)"
  using assms
proof (induction nanos arbitrary: m)
  case (Cons nano nanos)
  obtain x where g: "generateConnectionID nano \<lparr>cnt = of_nat m\<rparr> =
      (\<lparr>cnt = of_nat (Suc m)\<rparr>, FormatInt (int (Suc m)) @ ''-'' @ x)"
    using counter_next_nat [of m] Cons.prems
    by (simp add: generateConnectionID_def formatUserID_def)
  have "Suc m + length nanos < 2 ^ 63" using Cons.prems by simp
  note ih = Cons.IH [OF this]
  have "FormatInt (int (Suc m)) @ ''-'' @ x \<notin> set (connection_ids nanos \<lparr>cnt = of_nat (Suc m)\<rparr>)"
    using ih FormatInt_dash_inj [of "Suc m" x] by (metis less_irrefl)
  moreover have "\<exists>j x. m < j \<and> cn = FormatInt (int j) @ ''-'' @ x"
    if "cn \<in> set (connection_ids nanos \<lparr>cnt = of_nat (Suc m)\<rparr>)" for cn
    using ih that by (meson Suc_lessD)
  ultimately show ?case using ih g by (auto simp del: of_nat_Suc)
qed simp

text \<open>
  The connection ids of a process are pairwise distinct, whatever the clock says, for as
  many connections as the counter has positive values.
\<close>

theorem connection_ids_distinct:
  assumes "length nanos < 2 ^ 63"
  shows "distinct (connection_ids nanos newCounter)"
  using connection_ids_numbered [of 0 nanos] assms by (simp add: newCounter_def)

theorem connection_ids_distinct_witness: "distinct (connection_ids [5, 5, 1000005] newCounter)"
  by (rule connection_ids_distinct) simp

end
