(* ===== verification/Sha256.thy ===== *)
theory Sha256
  imports GoJson
begin

text \<open>
  SHA-256 (FIPS 180-4), which Go's \<open>crypto/sha256\<close> computes and \<open>gateway/auth.go\<close> uses to
  fingerprint a session id, and the \<open>%x\<close> verb of \<open>fmt\<close> on its digest.
\<close>

unbundle bit_operations_syntax

type_synonym w32 = "32 word"

text \<open>
  The standard takes its constants from primes: the round constants are the first 32 bits of the
  fractional parts of the cube roots of the first 64 primes, the initial state those of the square
  roots of the first eight. \<open>int_root e n k\<close> finds the integer \<open>e\<close>-th root of \<open>n\<close> bit by bit, below
  \<open>2 ^ k\<close>; all the roots here, scaled by \<open>2 ^ 32\<close>, are below \<open>2 ^ 37\<close>.
\<close>

fun int_root :: "nat \<Rightarrow> nat \<Rightarrow> nat \<Rightarrow> nat \<Rightarrow> nat" where
  "int_root e n 0 r = r"
| "int_root e n (Suc k) r = int_root e n k (if (r + 2 ^ k) ^ e \<le> n then r + 2 ^ k else r)"

definition root_bits :: "nat \<Rightarrow> nat \<Rightarrow> w32" where
  "root_bits e p = of_nat (int_root e (p * 2 ^ (32 * e)) 37 0)"

definition sha_primes :: "nat list" where
  "sha_primes =
    [2, 3, 5, 7, 11, 13, 17, 19, 23, 29, 31, 37, 41, 43, 47, 53,
     59, 61, 67, 71, 73, 79, 83, 89, 97, 101, 103, 107, 109, 113, 127, 131,
     137, 139, 149, 151, 157, 163, 167, 173, 179, 181, 191, 193, 197, 199, 211, 223,
     227, 229, 233, 239, 241, 251, 257, 263, 269, 271, 277, 281, 283, 293, 307, 311]"

definition sha_K :: "w32 list" where
  "sha_K = map (root_bits 3) sha_primes"

definition sha_init :: "w32 list" where
  "sha_init = map (root_bits 2) (take 8 sha_primes)"

text \<open>The message with a 1 bit, zeros up to 56 bytes modulo 64, and its length in bits.\<close>

definition be_bytes :: "nat \<Rightarrow> nat \<Rightarrow> nat list" where
  "be_bytes k n = map (\<lambda>i. n div 256 ^ (k - 1 - i) mod 256) [0..<k]"

definition sha_pad :: "bytes \<Rightarrow> nat list" where
  "sha_pad s =
     (let m = map code s @ [0x80]
      in m @ replicate ((120 - length m mod 64) mod 64) 0 @ be_bytes 8 (8 * length s))"

fun be_words :: "nat list \<Rightarrow> w32 list" where
  "be_words (a # b # c # d # r) = of_nat (((a * 256 + b) * 256 + c) * 256 + d) # be_words r"
| "be_words _ = []"

fun blocks :: "nat \<Rightarrow> 'a list \<Rightarrow> 'a list list" where
  "blocks 0 xs = []"
| "blocks (Suc k) xs = take 16 xs # blocks k (drop 16 xs)"

definition rotr :: "nat \<Rightarrow> w32 \<Rightarrow> w32" where
  "rotr n x = word_rotr n x"

text \<open>The schedule is kept newest word first.\<close>

definition schedule_word :: "w32 list \<Rightarrow> w32" where
  "schedule_word ws =
     (let x = ws ! 14; y = ws ! 1
      in (rotr 17 y XOR rotr 19 y XOR drop_bit 10 y) + ws ! 6 +
         (rotr 7 x XOR rotr 18 x XOR drop_bit 3 x) + ws ! 15)"

fun extend_schedule :: "nat \<Rightarrow> w32 list \<Rightarrow> w32 list" where
  "extend_schedule 0 ws = ws"
| "extend_schedule (Suc k) ws = extend_schedule k (schedule_word ws # ws)"

definition schedule :: "w32 list \<Rightarrow> w32 list" where
  "schedule block = rev (extend_schedule 48 (rev block))"

fun sha_round :: "w32 list \<Rightarrow> w32 \<times> w32 \<Rightarrow> w32 list" where
  "sha_round [a, b, c, d, e, f, g, h] (k, w) =
     (let t1 = h + (rotr 6 e XOR rotr 11 e XOR rotr 25 e) + ((e AND f) XOR ((NOT e) AND g)) + k + w;
          t2 = (rotr 2 a XOR rotr 13 a XOR rotr 22 a) + ((a AND b) XOR (a AND c) XOR (b AND c))
      in [t1 + t2, a, b, c, d + t1, e, f, g])"
| "sha_round st _ = st"

definition sha_block :: "w32 list \<Rightarrow> w32 list \<Rightarrow> w32 list" where
  "sha_block st block = map2 (+) st (foldl sha_round st (zip sha_K (schedule block)))"

definition Sum256 :: "bytes \<Rightarrow> nat list" where
  "Sum256 s =
     (let ws = be_words (sha_pad s)
      in concat (map (\<lambda>w. be_bytes 4 (unat w)) (foldl sha_block sha_init (blocks (length ws div 16) ws))))"

definition hex_bytes :: "nat list \<Rightarrow> string" where
  "hex_bytes bs = concat (map (\<lambda>b. [hex_digit (b div 16), hex_digit (b mod 16)]) bs)"

section \<open>Shape of the digest\<close>

lemma sha_pad_length: "length (sha_pad s) mod 64 = 0"
proof -
  have "(9 + (n + (120 - Suc n mod 64) mod 64)) mod 64 = 0" for n
  proof -
    define q r where "q = Suc n div 64" and "r = Suc n mod 64"
    have n: "Suc n = 64 * q + r" and r: "r < 64" by (simp_all add: q_def r_def)
    have "(120 - r) mod 64 = (if r \<le> 56 then 56 - r else 120 - r)"
    proof (cases "r \<le> 56")
      case True
      then have "120 - r = 64 + (56 - r)" by simp
      with True show ?thesis by (simp only: mod_add_self1) simp
    next
      case False
      with r show ?thesis by simp
    qed
    then have "9 + (n + (120 - r) mod 64) = 64 * (if r \<le> 56 then q + 1 else q + 2)"
      using n r by (simp split: if_splits)
    then show ?thesis by (simp add: r_def)
  qed
  then show ?thesis by (simp add: sha_pad_def be_bytes_def Let_def add.left_commute)
qed

lemma length_sha_round: "length (sha_round st kw) = length st"
  by (cases "(st, kw)" rule: sha_round.cases) (simp_all add: Let_def)

lemma length_foldl_round: "length (foldl sha_round st kws) = length st"
  by (induction kws arbitrary: st) (simp_all add: length_sha_round)

lemma length_foldl_block: "length (foldl sha_block st bs) = length st"
  by (induction bs arbitrary: st) (simp_all add: sha_block_def length_foldl_round)

lemma length_Sum256: "length (Sum256 s) = 32"
  by (simp add: Sum256_def Let_def length_concat comp_def be_bytes_def sum_list_triv
      length_foldl_block sha_init_def sha_primes_def)

lemma length_hex_bytes: "length (hex_bytes bs) = 2 * length bs"
  by (induction bs) (simp_all add: hex_bytes_def)

end
