(* ===== verification/Auth.thy ===== *)
theory Auth
  imports Config Sha256 Django
begin

text \<open>
  \<open>gateway/auth.go\<close>: the client of Django's \<open>/internal/ws-auth/\<close> endpoint.

  The network is a parameter: \<open>roundTrip\<close> is \<open>http.Client.Do\<close>, which gives an error or a
  response for a request, and \<open>newRequest\<close> says whether \<open>http.NewRequestWithContext\<close> accepts
  the URL. A response's body is what can be read from it and the error that follows, if any.
  \<open>Validate\<close> returns what it logs beside its result.
\<close>

section \<open>Requests, responses and results\<close>

record http_request =
  rq_method :: string
  rq_url :: string
  rq_headers :: "(string \<times> string) list"
  rq_timeout :: int

record http_response =
  rs_status :: int
  rs_body :: bytes
  rs_body_err :: "go_error option"

record AuthResult =
  ar_UserID :: int
  ar_Username :: string
  ar_AllowedChannels :: "string list"
  ar_SessionKey :: string

record authResponse =
  Authenticated :: bool
  resp_UserID :: int
  resp_Username :: string
  resp_AllowedChannels :: string_slice

text \<open>The sentinel errors, the second wrapped with what failed.\<close>

datatype auth_failure =
    BuildRequest go_error
  | Transport go_error
  | ReadBody go_error
  | BadStatus int
  | MalformedJson

datatype auth_error =
    ErrUnauthenticated
  | ErrAuthFailed auth_failure

record Authenticator =
  auth_timeout :: int
  auth_url :: string
  auth_secret :: string

definition NewAuthenticator :: "config \<Rightarrow> Authenticator" where
  "NewAuthenticator cfg =
     (let timeout = AuthTimeout cfg
      in \<lparr>auth_timeout = (if timeout \<le> 0 then 5 * Second else timeout),
          auth_url = DjangoAuthURL cfg, auth_secret = InternalAuthSecret cfg\<rparr>)"

section \<open>Validate\<close>

definition sessionHash :: "string \<Rightarrow> string" where
  "sessionHash sid = take 8 (hex_bytes (Sum256 sid))"

definition auth_request :: "Authenticator \<Rightarrow> string \<Rightarrow> http_request" where
  "auth_request a sid =
     \<lparr>rq_method = ''POST'', rq_url = auth_url a,
      rq_headers = [(''X-Internal-Auth'', auth_secret a), (''X-Forwarded-Session'', sid),
        (''Content-Type'', ''application/json''), (''Accept'', ''application/json'')],
      rq_timeout = auth_timeout a\<rparr>"

text \<open>\<open>io.ReadAll(io.LimitReader(body, 64*1024))\<close>\<close>

definition bodyLimit :: nat where
  "bodyLimit = 64 * 1024"

definition read_limited :: "http_response \<Rightarrow> go_error + bytes" where
  "read_limited r =
     (if bodyLimit \<le> length (rs_body r) then Inr (take bodyLimit (rs_body r))
      else case rs_body_err r of Some e \<Rightarrow> Inl e | None \<Rightarrow> Inr (rs_body r))"

definition auth_field :: "string \<Rightarrow> json \<Rightarrow> authResponse \<Rightarrow> authResponse option" where
  "auth_field k v p =
     (if is_field ''authenticated'' k
        then map_option (\<lambda>b. p\<lparr>Authenticated := b\<rparr>) (decode_bool v (Authenticated p))
      else if is_field ''user_id'' k
        then map_option (\<lambda>i. p\<lparr>resp_UserID := i\<rparr>) (decode_int64 v (resp_UserID p))
      else if is_field ''username'' k
        then map_option (\<lambda>s. p\<lparr>resp_Username := s\<rparr>) (decode_string v (resp_Username p))
      else if is_field ''allowed_channels'' k
        then map_option (\<lambda>l. p\<lparr>resp_AllowedChannels := l\<rparr>) (decode_strings v (resp_AllowedChannels p))
      else Some p)"

definition parse_auth :: "bytes \<Rightarrow> authResponse option" where
  "parse_auth data = Unmarshal auth_field data
     \<lparr>Authenticated = False, resp_UserID = 0, resp_Username = [], resp_AllowedChannels = ([], 0)\<rparr>"

definition auth_warn :: "Authenticator \<Rightarrow> string \<Rightarrow> string \<Rightarrow> string \<Rightarrow> log_rec" where
  "auth_warn a sid m reason =
     log_entry LevelWarn m [(''auth_url'', LString (auth_url a)),
       (''session_hash'', LString (sessionHash sid)), (''reason'', LString reason)]"

text \<open>The part of \<open>Validate\<close> after a response has arrived.\<close>

definition check_response :: "Authenticator \<Rightarrow> string \<Rightarrow> http_response \<Rightarrow>
    log_rec list \<times> (auth_error + AuthResult)" where
  "check_response a sid resp =
     (case read_limited resp of
        Inl e \<Rightarrow> ([auth_warn a sid ''ws-auth read body failed'' ''read_body''], Inl (ErrAuthFailed (ReadBody e)))
      | Inr body \<Rightarrow>
          if rs_status resp = 401 then ([], Inl ErrUnauthenticated)
          else if 500 \<le> rs_status resp \<or> rs_status resp < 200 then
            ([log_entry LevelWarn ''ws-auth non-2xx'' [(''auth_url'', LString (auth_url a)),
                (''status'', LInt (rs_status resp)), (''session_hash'', LString (sessionHash sid))]],
             Inl (ErrAuthFailed (BadStatus (rs_status resp))))
          else case parse_auth body of
            None \<Rightarrow> ([auth_warn a sid ''ws-auth malformed body'' ''json''], Inl (ErrAuthFailed MalformedJson))
          | Some parsed \<Rightarrow>
              if \<not> Authenticated parsed then ([], Inl ErrUnauthenticated)
              else ([], Inr \<lparr>ar_UserID = resp_UserID parsed, ar_Username = resp_Username parsed,
                             ar_AllowedChannels = slice_elems (resp_AllowedChannels parsed),
                             ar_SessionKey = sid\<rparr>))"

definition Validate ::
  "(string \<Rightarrow> go_error option) \<Rightarrow> (http_request \<Rightarrow> go_error + http_response) \<Rightarrow>
   Authenticator \<Rightarrow> string \<Rightarrow> log_rec list \<times> (auth_error + AuthResult)" where
  "Validate newRequest roundTrip a sid =
     (case newRequest (auth_url a) of
        Some e \<Rightarrow> ([], Inl (ErrAuthFailed (BuildRequest e)))
      | None \<Rightarrow>
          (case roundTrip (auth_request a sid) of
             Inl e \<Rightarrow> ([auth_warn a sid ''ws-auth call failed'' ''transport''], Inl (ErrAuthFailed (Transport e)))
           | Inr resp \<Rightarrow> check_response a sid resp))"

section \<open>The contract the upgrade handler relies on\<close>

text \<open>
  \<open>wsHandler\<close> needs two things of a validator: the session of an accepted client is the one
  asked about, and what is logged on the way comes from \<open>public\<close>, which holds a
  fingerprint of the session at most.
\<close>

locale session_validator =
  fixes validate :: "string \<Rightarrow> log_rec list \<times> (auth_error + AuthResult)"
    and public :: "string \<Rightarrow> string set"
  assumes validate_session: "validate sid = (l, Inr res) \<Longrightarrow> ar_SessionKey res = sid"
    and validate_public: "logged_strings (fst (validate sid)) \<subseteq> public sid"
begin

lemma validate_sessions_differ:
  "validate s = (l, Inr res) \<Longrightarrow> validate t = (l', Inr res') \<Longrightarrow> s \<noteq> t \<Longrightarrow> res \<noteq> res'"
  using validate_session by blast

end

definition auth_public :: "Authenticator \<Rightarrow> string \<Rightarrow> string set" where
  "auth_public a sid = {auth_url a, sessionHash sid, ''transport'', ''read_body'', ''json''}"

lemma check_response_public: "logged_strings (fst (check_response a sid resp)) \<subseteq> auth_public a sid"
  by (auto simp: check_response_def auth_public_def auth_warn_def split: sum.splits option.splits)

lemma check_response_session: "check_response a sid resp = (l, Inr res) \<Longrightarrow> ar_SessionKey res = sid \<and> l = []"
  by (auto simp: check_response_def split: sum.splits option.splits if_splits)

interpretation django: session_validator "Validate newRequest roundTrip a" "auth_public a"
  for newRequest roundTrip a
proof unfold_locales
  show "ar_SessionKey res = sid" if "Validate newRequest roundTrip a sid = (l, Inr res)" for sid l res
    using that by (auto simp: Validate_def check_response_session split: option.splits sum.splits)
  show "logged_strings (fst (Validate newRequest roundTrip a sid)) \<subseteq> auth_public a sid" for sid
    using check_response_public [of a sid]
    by (auto simp: Validate_def auth_warn_def auth_public_def split: option.splits sum.splits)
qed

section \<open>Properties of Validate\<close>

lemma check_response_accepts:
  "check_response a sid resp = (l, Inr res) \<longleftrightarrow> l = [] \<and>
     200 \<le> rs_status resp \<and> rs_status resp < 500 \<and> rs_status resp \<noteq> 401 \<and>
     (\<exists>body p. read_limited resp = Inr body \<and> parse_auth body = Some p \<and> Authenticated p \<and>
        res = \<lparr>ar_UserID = resp_UserID p, ar_Username = resp_Username p,
          ar_AllowedChannels = slice_elems (resp_AllowedChannels p), ar_SessionKey = sid\<rparr>)"
  by (auto simp: check_response_def split: sum.splits option.splits)

text \<open>
  C17: \<open>Validate\<close> accepts a session exactly when the request can be built and sent, the body
  (its first 64 KiB) can be read, the status is from 200 to 499 but not 401, and the body is
  a JSON document that says authenticated; the result is then the body's user and channels
  with the session asked about, and nothing is logged.
\<close>

theorem Validate_accepts:
  "Validate newRequest roundTrip a sid = (l, Inr res) \<longleftrightarrow> l = [] \<and>
     newRequest (auth_url a) = None \<and>
     (\<exists>resp body p. roundTrip (auth_request a sid) = Inr resp \<and>
        200 \<le> rs_status resp \<and> rs_status resp < 500 \<and> rs_status resp \<noteq> 401 \<and>
        read_limited resp = Inr body \<and> parse_auth body = Some p \<and> Authenticated p \<and>
        res = \<lparr>ar_UserID = resp_UserID p, ar_Username = resp_Username p,
          ar_AllowedChannels = slice_elems (resp_AllowedChannels p), ar_SessionKey = sid\<rparr>)"
  by (auto simp: Validate_def check_response_accepts split: option.splits sum.splits)

text \<open>
  C18: \<open>Validate\<close> reports a session as unauthenticated exactly when a readable answer has
  status 401, or one from 200 to 499 whose body is a JSON document that does not say
  authenticated; every other failure is \<open>ErrAuthFailed\<close>.
\<close>

theorem Validate_unauthenticated:
  "snd (Validate newRequest roundTrip a sid) = Inl ErrUnauthenticated \<longleftrightarrow>
     newRequest (auth_url a) = None \<and>
     (\<exists>resp body. roundTrip (auth_request a sid) = Inr resp \<and> read_limited resp = Inr body \<and>
        (rs_status resp = 401 \<or>
         200 \<le> rs_status resp \<and> rs_status resp < 500 \<and>
         (\<exists>p. parse_auth body = Some p \<and> \<not> Authenticated p)))"
  by (auto simp: Validate_def check_response_def split: option.splits sum.splits)

text \<open>
  What \<open>Validate\<close> logs depends on the session id through its fingerprint and the answer
  only, and on the secret through the answer only: with another session id of the same
  fingerprint and another secret, the same answer gives the same records; and the strings in
  them are the URL, the 8 digits of the fingerprint and a fixed reason.
\<close>

theorem Validate_log_opaque:
  assumes "sessionHash sid = sessionHash sid'"
    and "auth_url a' = auth_url a" and "roundTrip' (auth_request a' sid') = roundTrip (auth_request a sid)"
  shows "fst (Validate newRequest roundTrip' a' sid') = fst (Validate newRequest roundTrip a sid) \<and>
    logged_strings (fst (Validate newRequest roundTrip a sid)) \<subseteq>
      {auth_url a, sessionHash sid, ''transport'', ''read_body'', ''json''} \<and>
    length (sessionHash sid) = 8"
proof -
  have "fst (check_response a' sid' resp) = fst (check_response a sid resp)" for resp
    using assms(1,2)
    by (auto simp: check_response_def auth_warn_def split: sum.splits option.splits)
  then have "fst (Validate newRequest roundTrip' a' sid') = fst (Validate newRequest roundTrip a sid)"
    using assms
    by (auto simp: Validate_def auth_warn_def split: option.splits sum.splits)
  then show ?thesis
    using django.validate_public [of newRequest roundTrip a sid]
    by (simp add: auth_public_def sessionHash_def length_hex_bytes length_Sum256)
qed

definition sample_auth :: Authenticator where
  "sample_auth = NewAuthenticator sample_config"

definition unreachable :: "http_request \<Rightarrow> go_error + http_response" where
  "unreachable rq = Inl (ErrorString ''connection refused'')"

theorem Validate_log_opaque_witness:
  "fst (Validate (\<lambda>_. None) unreachable (sample_auth\<lparr>auth_secret := ''other''\<rparr>) ''abc'') =
   fst (Validate (\<lambda>_. None) unreachable sample_auth ''abc'')"
  by (rule Validate_log_opaque [THEN conjunct1]) (simp_all add: unreachable_def)

lemma decode_elems_strings: "decode_elems [] (map JStr vs) = Some vs"
  by (induction vs) simp_all

lemma decode_strings_strings: "decode_strings (JArr (map JStr vs)) ([], 0) = Some (vs, length vs)"
  using decode_elems_strings [of vs] by (cases vs) simp_all

lemma parse_ws_auth_body:
  assumes "list_all plain_char name" and "\<forall>c \<in> set chans. list_all plain_char c" and "int64_range uid"
  shows "parse_auth (ws_auth_body uid name chans) =
    Some \<lparr>Authenticated = True, resp_UserID = uid, resp_Username = name,
          resp_AllowedChannels = (chans, length chans)\<rparr>"
proof -
  have f: "foldName ''authenticated'' = ''AUTHENTICATED''" "foldName ''user_id'' = ''USER_ID''"
    "foldName ''username'' = ''USERNAME''" "foldName ''allowed_channels'' = ''ALLOWED_CHANNELS''"
    by (simp_all add: foldName.simps upper_char_def between_def) code_simp+
  show ?thesis
    using decode_strings_strings [of chans]
    by (simp add: parse_auth_def Unmarshal_def document_ws_auth_body [OF assms(1,2)] auth_field_def
        is_field_def f ParseInt_FormatInt [OF assms(3)])
qed

text \<open>
  An answer as Django's view writes it round trips: for any 64-bit user id and any plain
  name and channels that fit the limit, \<open>Validate\<close> returns exactly these with the session
  asked about.
\<close>

theorem Validate_django:
  assumes "newRequest (auth_url a) = None" and "roundTrip (auth_request a sid) =
      Inr \<lparr>rs_status = 200, rs_body = ws_auth_body uid name chans, rs_body_err = None\<rparr>"
    and "list_all plain_char name" and "\<forall>c \<in> set chans. list_all plain_char c" and "int64_range uid"
    and "length (ws_auth_body uid name chans) < 65536"
  shows "Validate newRequest roundTrip a sid =
    ([], Inr \<lparr>ar_UserID = uid, ar_Username = name, ar_AllowedChannels = chans, ar_SessionKey = sid\<rparr>)"
  using assms
  by (simp add: Validate_def check_response_accepts read_limited_def bodyLimit_def parse_ws_auth_body slice_elems_def)

theorem Validate_django_witness:
  "Validate (\<lambda>_. None)
     (\<lambda>rq. Inr \<lparr>rs_status = 200, rs_body = ws_auth_body 5 ''ann'' [''news'', ''sport''], rs_body_err = None\<rparr>)
     sample_auth ''k1'' =
   ([], Inr \<lparr>ar_UserID = 5, ar_Username = ''ann'', ar_AllowedChannels = [''news'', ''sport''],
             ar_SessionKey = ''k1''\<rparr>)"
  by (rule Validate_django)
     (simp_all add: plain_char_def between_def int64_range_def ws_auth_body_def quoted_def FormatInt_def
        dec_nat.simps)

end
