(* ===== verification/Health.thy ===== *)
theory Health
  imports RedisSub
begin

text \<open>
  \<open>gateway/health.go\<close>: the \<open>/healthz\<close> handler. The process-wide flag \<open>shuttingDown\<close> is an
  argument, and so is Redis, through the outcome of its PING.
\<close>

record http_reply =
  hr_status :: int
  hr_body :: bytes

text \<open>\<open>http.Error\<close> ends the text with a newline.\<close>

definition http_Error :: "string \<Rightarrow> int \<Rightarrow> http_reply" where
  "http_Error text status = \<lparr>hr_status = status, hr_body = text @ [CHR 0x0A]\<rparr>"

definition HealthzHandler :: "redis_net \<Rightarrow> bool \<Rightarrow> 'h redisSubscriber \<Rightarrow> 'h redisSubscriber \<times> http_reply" where
  "HealthzHandler net shuttingDown r =
     (if shuttingDown then (r, http_Error ''shutting down'' 503)
      else case rs_Ping net r of
             (r', Some e) \<Rightarrow> (r', http_Error ''redis unreachable'' 503)
           | (r', None) \<Rightarrow> (r', \<lparr>hr_status = 200, hr_body = ''ok''\<rparr>))"

text \<open>
  The probe answers 200 exactly when the process is not shutting down and Redis answers
  a PING, and 503 otherwise; it asks Redis nothing but that PING, nothing at all during
  shutdown, and leaves the subscriptions as they are.
\<close>

theorem HealthzHandler_status:
  "let (r', reply) = HealthzHandler net shuttingDown r
   in hr_status reply = (if \<not> shuttingDown \<and> net (issued r) PING = None then 200 else 503) \<and>
      issued r' = issued r @ (if shuttingDown then [] else [(PING, net (issued r) PING)]) \<and>
      rs_held r' = rs_held r \<and> live (issued r') = live (issued r)"
  by (cases "net (issued r) PING")
     (auto simp: HealthzHandler_def rs_Ping_def issue_def Let_def http_Error_def rs_held_def)

end
