(* ===== verification/Mux.thy ===== *)
theory Mux
  imports GoJson
begin

text \<open>
  The multiplexer \<open>main\<close> of \<open>gateway/main.go\<close> sets up, as \<open>http.ServeMux\<close> works it: a path is
  cleaned, matched segment by segment against the two patterns \<open>/healthz\<close> and \<open>/ws/\<close>, and a
  request whose path was not clean, or lacks the last slash of \<open>/ws/\<close>, is redirected.

  A path here is the escaped path of the request's URL.
\<close>

section \<open>Paths\<close>

text \<open>\<open>url.PathUnescape\<close>, and what the multiplexer falls back to where it fails.\<close>

fun PathUnescape :: "string \<Rightarrow> string option" where
  "PathUnescape [] = Some []"
| "PathUnescape (c # s) =
     (if c \<noteq> CHR ''%'' then map_option ((#) c) (PathUnescape s)
      else case s of
        a # b # r \<Rightarrow>
          (case (hex_val a, hex_val b) of
             (Some x, Some y) \<Rightarrow> map_option ((#) (char_of (16 * x + y))) (PathUnescape r)
           | _ \<Rightarrow> None)
      | _ \<Rightarrow> None)"

definition unescape :: "string \<Rightarrow> string" where
  "unescape s = (case PathUnescape s of Some t \<Rightarrow> t | None \<Rightarrow> s)"

text \<open>\<open>path.Clean\<close> of a path that starts with a slash, segment by segment.\<close>

fun clean_segment :: "string \<Rightarrow> string list \<Rightarrow> string list" where
  "clean_segment s st = (if s = [] \<or> s = ''.'' then st else if s = ''..'' then tl st else s # st)"

definition clean_segments :: "string list \<Rightarrow> string list" where
  "clean_segments ss = rev (fold clean_segment ss [])"

definition slashed :: "string list \<Rightarrow> string" where
  "slashed ss = concat (map ((#) (CHR ''/'')) ss)"

definition Clean :: "string \<Rightarrow> string" where
  "Clean p = (case clean_segments (Split (CHR ''/'') (tl p)) of [] \<Rightarrow> ''/'' | ss \<Rightarrow> slashed ss)"

definition cleanPath :: "string \<Rightarrow> string" where
  "cleanPath p =
     (if p = [] then ''/''
      else let p = (if hd p \<noteq> CHR ''/'' then CHR ''/'' # p else p); np = Clean p
           in if last p = CHR ''/'' \<and> np \<noteq> ''/'' then np @ ''/'' else np)"

section \<open>The two patterns\<close>

datatype route =
    ToHealthz
  | ToWs
  | Redirected string
  | NotFound

definition firstSegment :: "string \<Rightarrow> string \<times> string" where
  "firstSegment p =
     (unescape (takeWhile (\<lambda>c. c \<noteq> CHR ''/'') (tl p)), dropWhile (\<lambda>c. c \<noteq> CHR ''/'') (tl p))"

definition mux_match :: "string \<Rightarrow> route" where
  "mux_match p =
     (case firstSegment p of (seg, rest) \<Rightarrow>
        if seg = ''healthz'' \<and> rest = [] then ToHealthz
        else if seg = ''ws'' \<and> rest \<noteq> [] then ToWs
        else NotFound)"

text \<open>A pattern that ends in a slash is matched exactly by a path with nothing after it.\<close>

definition exactMatch :: "route \<Rightarrow> string \<Rightarrow> bool" where
  "exactMatch r p \<longleftrightarrow>
     (case r of
        ToHealthz \<Rightarrow> True
      | ToWs \<Rightarrow> p \<noteq> [] \<and> last p = CHR ''/'' \<and> count_list p (CHR ''/'') = 2
      | _ \<Rightarrow> False)"

definition wants_slash :: "string \<Rightarrow> bool" where
  "wants_slash path \<longleftrightarrow> \<not> exactMatch (mux_match path) path \<and> (path = [] \<or> last path \<noteq> CHR ''/'') \<and>
     exactMatch (mux_match (path @ ''/'')) (path @ ''/'')"

text \<open>
  \<open>mux\<close> with its two handlers: where a request goes. The path of a \<open>CONNECT\<close> request is not
  cleaned.
\<close>

definition main_mux :: "string \<Rightarrow> string \<Rightarrow> route" where
  "main_mux method p =
     (let path = (if method = ''CONNECT'' then p else cleanPath p)
      in if wants_slash path then Redirected (cleanPath (unescape p) @ ''/'')
         else if path \<noteq> p then Redirected path
         else mux_match path)"

section \<open>Clean paths\<close>

definition good_segment :: "string \<Rightarrow> bool" where
  "good_segment s \<longleftrightarrow> s \<noteq> [] \<and> s \<noteq> ''.'' \<and> s \<noteq> ''..'' \<and> CHR ''/'' \<notin> set s"

lemma Split_nonempty [simp]: "Split sep s \<noteq> []"
  by (induction sep s rule: Split.induct) (auto split: list.split)

lemma Split_no_sep: "w \<in> set (Split sep s) \<Longrightarrow> sep \<notin> set w"
  by (induction sep s arbitrary: w rule: Split.induct) (auto split: list.splits if_splits)

lemma Split_word: "sep \<notin> set s \<Longrightarrow> Split sep s = [s]"
  by (induction sep s rule: Split.induct) auto

lemma Split_append: "sep \<notin> set s \<Longrightarrow> Split sep (s @ sep # t) = s # Split sep t"
  by (induction s) auto

lemma Split_slashed:
  assumes "\<forall>s \<in> set (w # ws). CHR ''/'' \<notin> set s"
  shows "Split (CHR ''/'') (w @ slashed ws) = w # ws"
  using assms
proof (induction ws arbitrary: w)
  case (Cons v ws)
  then show ?case by (simp add: slashed_def Split_append)
qed (simp add: slashed_def Split_word)

lemma fold_clean_good:
  "\<forall>s \<in> set st. good_segment s \<Longrightarrow> \<forall>s \<in> set ss. CHR ''/'' \<notin> set s \<Longrightarrow>
     \<forall>s \<in> set (fold clean_segment ss st). good_segment s"
proof (induction ss arbitrary: st)
  case (Cons s ss)
  have "\<forall>s \<in> set (clean_segment s st). good_segment s"
    using Cons.prems by (cases st) (auto simp: good_segment_def)
  then show ?case using Cons by simp
qed simp

lemma clean_segments_good: "\<forall>s \<in> set (clean_segments (Split (CHR ''/'') p)). good_segment s"
  using fold_clean_good [of "[]" "Split (CHR ''/'') p"] Split_no_sep by (auto simp: clean_segments_def)

lemma fold_good: "\<forall>s \<in> set ss. good_segment s \<Longrightarrow> fold clean_segment ss st = rev ss @ st"
  by (induction ss arbitrary: st) (simp_all add: good_segment_def)

lemma clean_good: "\<forall>s \<in> set ss. good_segment s \<Longrightarrow> clean_segments ss = ss"
  by (simp add: clean_segments_def fold_good)

lemma clean_good_slash: "\<forall>s \<in> set ss. good_segment s \<Longrightarrow> clean_segments (ss @ [[]]) = ss"
  by (simp add: clean_segments_def fold_good)

text \<open>The shapes of a cleaned path.\<close>

definition clean_path :: "string \<Rightarrow> bool" where
  "clean_path p \<longleftrightarrow> p = ''/'' \<or>
     (\<exists>ss. ss \<noteq> [] \<and> (\<forall>s \<in> set ss. good_segment s) \<and> (p = slashed ss \<or> p = slashed ss @ ''/''))"

lemma Clean_cases: "Clean q = ''/'' \<or> (\<exists>ss. ss \<noteq> [] \<and> (\<forall>s \<in> set ss. good_segment s) \<and> Clean q = slashed ss)"
proof (cases "clean_segments (Split (CHR ''/'') (tl q))")
  case Nil
  then show ?thesis by (simp add: Clean_def)
next
  case (Cons w ws)
  then have "Clean q = slashed (w # ws)" by (simp add: Clean_def)
  with clean_segments_good [of "tl q", unfolded Cons] show ?thesis by blast
qed

lemma clean_path_cleanPath: "clean_path (cleanPath p)"
proof -
  have "clean_path (Clean q) \<and> (Clean q \<noteq> ''/'' \<longrightarrow> clean_path (Clean q @ ''/''))" for q
    using Clean_cases [of q] unfolding clean_path_def by metis
  then show ?thesis by (auto simp: cleanPath_def Let_def clean_path_def)
qed

lemma slashed_Cons: "slashed (s # ss) = CHR ''/'' # s @ slashed ss"
  by (simp add: slashed_def)

lemma last_slashed: "good_segment s \<Longrightarrow> last (slashed (ss @ [s])) \<noteq> CHR ''/''"
proof -
  assume s: "good_segment s"
  then have "last s \<noteq> CHR ''/''" unfolding good_segment_def by (metis last_in_set)
  with s show ?thesis by (simp add: slashed_def good_segment_def)
qed

lemma Clean_slashed:
  assumes "ss \<noteq> []" and "\<forall>s \<in> set ss. good_segment s"
  shows "Clean (slashed ss) = slashed ss" and "Clean (slashed ss @ ''/'') = slashed ss"
proof -
  obtain w ws where ss: "ss = w # ws" using assms(1) by (cases ss) auto
  have no: "\<forall>s \<in> set (w # ws). CHR ''/'' \<notin> set s" using assms(2) ss by (simp add: good_segment_def)
  then have "Split (CHR ''/'') (tl (slashed ss)) = ss" using Split_slashed by (simp add: ss slashed_Cons)
  then show "Clean (slashed ss) = slashed ss" using clean_good [OF assms(2)] by (simp add: Clean_def ss)
  have "slashed (ws @ [[]]) = slashed ws @ ''/''" by (simp add: slashed_def)
  then have "Split (CHR ''/'') (tl (slashed ss @ ''/'')) = ss @ [[]]"
    using Split_slashed [of w "ws @ [[]]"] no by (simp add: ss slashed_Cons)
  then show "Clean (slashed ss @ ''/'') = slashed ss"
    using clean_good_slash [OF assms(2)] by (simp add: Clean_def ss)
qed

lemma cleanPath_clean: "clean_path p \<Longrightarrow> cleanPath p = p"
proof -
  assume "clean_path p"
  then consider "p = ''/''" | ss where "ss \<noteq> []" "\<forall>s \<in> set ss. good_segment s" "p = slashed ss \<or> p = slashed ss @ ''/''"
    by (auto simp: clean_path_def)
  then show ?thesis
  proof cases
    case 1
    then show ?thesis by (simp add: cleanPath_def Let_def Clean_def clean_segments_def)
  next
    case 2
    obtain w ws where w: "ss = w # ws" using 2(1) by (cases ss) auto
    obtain v vs where v: "ss = vs @ [v]" using 2(1) by (cases ss rule: rev_cases) auto
    have "last (slashed ss) \<noteq> CHR ''/''" using last_slashed [of v vs] 2(2) v by simp
    moreover have "slashed ss \<noteq> ''/''" using 2(2) w by (auto simp: slashed_Cons good_segment_def)
    moreover have "hd (slashed ss) = CHR ''/''" "slashed ss \<noteq> []" by (simp_all add: w slashed_Cons)
    ultimately show ?thesis
      using 2(3) Clean_slashed [OF 2(1,2)] by (auto simp: cleanPath_def Let_def)
  qed
qed

lemma cleanPath_idem: "cleanPath (cleanPath p) = cleanPath p"
  by (rule cleanPath_clean [OF clean_path_cleanPath])

section \<open>Routes\<close>

lemma clean_path_hd: "clean_path p \<Longrightarrow> \<exists>r. p = CHR ''/'' # r"
  by (auto simp: clean_path_def neq_Nil_conv slashed_Cons)

lemma mux_match_cases: "mux_match p = ToHealthz \<or> mux_match p = ToWs \<or> mux_match p = NotFound"
  by (simp add: mux_match_def split: prod.split)

lemma mux_match_healthz: "mux_match p = ToHealthz \<longleftrightarrow> firstSegment p = (''healthz'', [])"
  by (auto simp: mux_match_def split: prod.splits if_splits)

lemma mux_match_ws: "mux_match p = ToWs \<longleftrightarrow> fst (firstSegment p) = ''ws'' \<and> snd (firstSegment p) \<noteq> []"
  by (auto simp: mux_match_def split: prod.splits if_splits)

text \<open>Below a pattern with its slash, a path has the slash of the pattern and its own first one.\<close>

lemma count_rest: "x \<in> set r \<Longrightarrow> 1 \<le> count_list r x"
  using count_list_0_iff [of r x] by linarith

lemma wants_slash_no_match:
  assumes "clean_path p" and "wants_slash p"
  shows "mux_match p = NotFound"
proof -
  obtain r where p: "p = CHR ''/'' # r" using clean_path_hd [OF assms(1)] by blast
  have "mux_match p \<noteq> ToHealthz" using assms(2) by (auto simp: wants_slash_def exactMatch_def)
  moreover have "mux_match p \<noteq> ToWs"
  proof
    assume "mux_match p = ToWs"
    then have "1 \<le> count_list r (CHR ''/'')"
      by (intro count_rest) (simp add: mux_match_ws firstSegment_def p)
    then have "3 \<le> count_list (p @ ''/'') (CHR ''/'')" by (simp add: p)
    moreover have "mux_match (p @ ''/'') \<noteq> ToHealthz"
      by (auto simp: mux_match_healthz firstSegment_def p dropWhile_eq_Nil_conv)
    ultimately show False using assms(2) by (auto simp: wants_slash_def exactMatch_def split: route.splits)
  qed
  ultimately show ?thesis using mux_match_cases by blast
qed

lemma unescape_plain: "CHR ''%'' \<notin> set s \<Longrightarrow> unescape s = s"
proof -
  assume "CHR ''%'' \<notin> set s"
  then have "PathUnescape s = Some s" by (induction s) auto
  then show ?thesis by (simp add: unescape_def)
qed

lemma fold_clean_chars:
  "\<forall>w \<in> set st. set w \<subseteq> S \<Longrightarrow> \<forall>w \<in> set ss. set w \<subseteq> S \<Longrightarrow> w \<in> set (fold clean_segment ss st) \<Longrightarrow> set w \<subseteq> S"
proof (induction ss arbitrary: st)
  case (Cons s ss)
  have "\<forall>w \<in> set (clean_segment s st). set w \<subseteq> S" using Cons.prems by (cases st) auto
  with Cons show ?case by simp
qed simp

lemma Split_chars: "w \<in> set (Split sep s) \<Longrightarrow> set w \<subseteq> set s"
  by (induction sep s arbitrary: w rule: Split.induct) (fastforce split: list.splits if_splits)+

lemma cleanPath_chars: "set (cleanPath p) \<subseteq> insert (CHR ''/'') (set p)"
proof -
  have sl: "set (slashed ws) \<subseteq> insert (CHR ''/'') S" if "\<forall>w \<in> set ws. set w \<subseteq> S" for ws S
    using that by (auto simp: slashed_def)
  have "\<forall>w \<in> set (clean_segments (Split (CHR ''/'') r)). set w \<subseteq> set r" for r
    using fold_clean_chars [of "[]" "set r" "Split (CHR ''/'') r"] Split_chars [of _ "CHR ''/''" r]
    by (auto simp: clean_segments_def)
  then have "set (Clean q) \<subseteq> insert (CHR ''/'') (set (tl q))" for q
    using sl [of _ "set (tl q)"] by (auto simp: Clean_def split: list.split)
  then have "set (Clean q) \<subseteq> insert (CHR ''/'') (set q)" for q by (cases q) fastforce+
  from this [of p] this [of "CHR ''/'' # p"] show ?thesis by (auto simp: cleanPath_def Let_def)
qed

lemma wants_slash_ws:
  assumes "clean_path p" and "wants_slash p" and "CHR ''%'' \<notin> set p"
  shows "p = ''/ws''"
proof -
  obtain r where p: "p = CHR ''/'' # r" using clean_path_hd [OF assms(1)] by blast
  have ex: "exactMatch (mux_match (p @ ''/'')) (p @ ''/'')" using assms(2) by (simp add: wants_slash_def)
  moreover have "mux_match (p @ ''/'') \<noteq> ToHealthz"
    by (auto simp: mux_match_healthz firstSegment_def p dropWhile_eq_Nil_conv)
  ultimately have m: "mux_match (p @ ''/'') = ToWs" "count_list (p @ ''/'') (CHR ''/'') = 2"
    by (auto simp: exactMatch_def split: route.splits)
  then have "CHR ''/'' \<notin> set r" by (simp add: p count_list_0_iff)
  then have "takeWhile (\<lambda>c. c \<noteq> CHR ''/'') (r @ ''/'') = r" by (subst takeWhile_append2) auto
  then have "unescape r = ''ws''" using m(1) by (simp add: mux_match_ws firstSegment_def p)
  with assms(3) show ?thesis by (simp add: p unescape_plain)
qed



end
