(* ===== verification/Gateway.thy ===== *)
theory Gateway
  imports HubRedis Pumps Auth Health Mux
begin

text \<open>
  \<open>gateway/main.go\<close>: start-up, the \<open>/ws/\<close> upgrade handler and the goroutines of the process
  put together as one transition system.

  The WebSocket library is a parameter: \<open>accept\<close> is \<open>websocket.Accept\<close>, given the origin
  patterns and the request (\<open>None\<close> for success). The request is what \<open>net/http\<close> hands the
  multiplexer and the handler: its method and escaped path, its Origin header (empty if missing) and
  its \<open>sessionid\<close> cookie.
\<close>

section \<open>The upgrade handler\<close>

record ws_request =
  req_Method :: string
  req_Path :: string
  rq_Origin :: string
  rq_sessionid :: "string option"

datatype ws_outcome =
    Refused http_reply
  | AcceptFailed go_error
  | Upgraded AuthResult

definition originPatternsFor :: "string list \<Rightarrow> string list" where
  "originPatternsFor origins =
     map (\<lambda>origin. case Index ''://'' origin of Some i \<Rightarrow> drop (i + 3) origin | None \<Rightarrow> origin) origins"

definition wsHandler ::
  "config \<Rightarrow> (string \<Rightarrow> log_rec list \<times> (auth_error + AuthResult)) \<Rightarrow>
   (string list \<Rightarrow> ws_request \<Rightarrow> go_error option) \<Rightarrow> ws_request \<Rightarrow> log_rec list \<times> ws_outcome" where
  "wsHandler cfg validate accept r =
     (if rq_Origin r \<noteq> [] \<and> rq_Origin r \<notin> set (AllowedOrigins cfg)
      then ([], Refused (http_Error ''origin not allowed'' 403))
      else case rq_sessionid r of
        None \<Rightarrow> ([], Refused (http_Error ''no session'' 401))
      | Some v \<Rightarrow>
          if v = [] then ([], Refused (http_Error ''no session'' 401))
          else (case validate v of
                  (l, Inl e) \<Rightarrow> (l, Refused (http_Error ''unauthenticated'' 401))
                | (l, Inr result) \<Rightarrow>
                    (case accept (originPatternsFor (AllowedOrigins cfg)) r of
                       Some e \<Rightarrow> (l @ [log_entry LevelWarn ''websocket accept failed'' [(''err'', LError e)]],
                                  AcceptFailed e)
                     | None \<Rightarrow> (l, Upgraded result))))"

text \<open>What an upgrade tells, for any validator that keeps the contract.\<close>

context session_validator
begin

lemma ws_upgraded:
  assumes "wsHandler cfg validate accept r = (l, Upgraded res)"
  shows "rq_sessionid r = Some (ar_SessionKey res) \<and> ar_SessionKey res \<noteq> [] \<and>
    (rq_Origin r = [] \<or> rq_Origin r \<in> set (AllowedOrigins cfg)) \<and>
    validate (ar_SessionKey res) = (l, Inr res) \<and>
    accept (originPatternsFor (AllowedOrigins cfg)) r = None"
  using assms validate_session
  by (auto simp: wsHandler_def split: if_splits option.splits prod.splits sum.splits)

lemma ws_logs:
  assumes "rq_sessionid r = Some v"
  shows "logged_strings (fst (wsHandler cfg validate accept r)) \<subseteq> public v \<union>
    (case accept (originPatternsFor (AllowedOrigins cfg)) r of None \<Rightarrow> {} | Some e \<Rightarrow> set (error_args e))"
  using validate_public [of v] assms
  by (auto simp: wsHandler_def split: option.splits prod.splits sum.splits)

end

text \<open>The client the handler registers after an upgrade.\<close>

definition ws_client :: "int \<Rightarrow> int \<Rightarrow> AuthResult \<Rightarrow> counter \<Rightarrow> counter \<times> client" where
  "ws_client nano now result k =
     (case newPumpClient nano now (ar_UserID result) (ar_SessionKey result) k of (k', c) \<Rightarrow>
        (k', c\<lparr>allowedChannels := fold insert (ar_AllowedChannels result) (allowedChannels c)\<rparr>))"

section \<open>Start-up and logging\<close>

text \<open>The text handler drops records below its level.\<close>

definition setupLogger :: "log_level \<Rightarrow> log_rec list \<Rightarrow> log_rec list" where
  "setupLogger level = filter (\<lambda>r. level \<le> lvl r)"

datatype fatal =
    FatalConfig load_error
  | FatalRedis go_error

text \<open>
  A client struct that stands for memory not allocated yet. The callback given to
  \<open>SetDeliver\<close> is the only one in the program, the send on \<open>incoming\<close>; it is the unit value.
\<close>

definition no_client :: client where
  "no_client = \<lparr>send = make_chan 0, disconnect = make_chan 0, userID = 0, sessionKey = [],
     connectionID = [], allowedChannels = {}, subscribed = {}, connectedAt = 0\<rparr>"

definition main_start :: "environment \<Rightarrow> (string \<Rightarrow> go_error option) \<Rightarrow>
    fatal + config \<times> Authenticator \<times> unit redisSubscriber hub" where
  "main_start env parseURL =
     (case Load env of
        Inl e \<Rightarrow> Inl (FatalConfig e)
      | Inr cfg \<Rightarrow>
          let auth = NewAuthenticator cfg
          in (case NewRedisSubscriber parseURL (RedisURL cfg) None of
                Inl e \<Rightarrow> Inl (FatalRedis e)
              | Inr mgr \<Rightarrow>
                  let mgr' = rs_Start (rs_SetDeliver (Some ()) mgr)
                  in Inr (cfg, auth, NewHub cfg mgr' (\<lambda>_. no_client))))"

section \<open>The process\<close>

text \<open>
  The state: the hub, the counter of connection ids, the next free pointer, the clients whose
  pumps run, those whose read pump has ended and waits to send on \<open>unregister\<close>, what was done
  on each connection, whether the hub's loop still runs, and, as histories, the messages handed
  to the hub and the upgrade request and Django's answer to it that let each client in.
\<close>

record 'm gateway =
  g_hub :: "'m hub"
  g_ctr :: counter
  g_next :: cid
  reading :: "cid set"
  exiting :: "cid set"
  writing :: "cid set"
  wire :: "cid \<Rightarrow> conn_event list"
  hub_live :: bool
  published :: "incomingMessage list"
  handshake :: "cid \<Rightarrow> (ws_request \<times> http_response) option"

definition gw_start :: "'m hub \<Rightarrow> 'm gateway" where
  "gw_start h = \<lparr>g_hub = h, g_ctr = newCounter, g_next = 0, reading = {}, exiting = {}, writing = {},
     wire = (\<lambda>_. []), hub_live = True, published = [], handshake = (\<lambda>_. None)\<rparr>"

text \<open>A blocking send: it completes when the buffer has room.\<close>

fun post :: "conn_event \<Rightarrow> 'm hub \<Rightarrow> 'm hub option" where
  "post (PostSubscribe s) h =
     (if has_room (subscribe h) then Some (h\<lparr>subscribe := offer s (subscribe h)\<rparr>) else None)"
| "post (PostUnsubscribe s) h =
     (if has_room (unsubscribe h) then Some (h\<lparr>unsubscribe := offer s (unsubscribe h)\<rparr>) else None)"
| "post (PostUnregister c) h =
     (if has_room (unregister h) then Some (h\<lparr>unregister := offer c (unregister h)\<rparr>) else None)"
| "post _ h = Some h"

fun posts :: "conn_event list \<Rightarrow> 'm hub \<Rightarrow> 'm hub option" where
  "posts [] h = Some h"
| "posts (e # es) h = Option.bind (post e h) (posts es)"

definition answered :: "(http_request \<Rightarrow> go_error + http_response) \<Rightarrow> Authenticator \<Rightarrow> ws_request \<Rightarrow>
    (ws_request \<times> http_response) option" where
  "answered roundTrip a r =
     (case rq_sessionid r of
        None \<Rightarrow> None
      | Some v \<Rightarrow> (case roundTrip (auth_request a v) of Inl _ \<Rightarrow> None | Inr resp \<Rightarrow> Some (r, resp)))"

text \<open>
  One step of the process. \<open>a\<close> is the authenticator; the network, the peer and the clock may
  do anything.
\<close>

inductive gw_step :: "'m channelManager option \<Rightarrow> Authenticator \<Rightarrow> 'm gateway \<Rightarrow> 'm gateway go \<Rightarrow> bool"
  for mgr :: "'m channelManager option" and a :: Authenticator where
  gw_connect:
    "h = g_hub s \<Longrightarrow> c = g_next s \<Longrightarrow>
     wsHandler (hub_cfg h) (Validate newRequest roundTrip a) accept r = (l, Upgraded res) \<Longrightarrow>
     ws_client nano now res (g_ctr s) = (k, cl) \<Longrightarrow> has_room (register h) \<Longrightarrow>
     main_mux (req_Method r) (req_Path r) = ToWs \<Longrightarrow>
     gw_step mgr a s (go_bind (NewTicker (PingInterval (hub_cfg h))) (\<lambda>_.
       Inr (s\<lparr>g_hub := h\<lparr>register := offer c (register h), heap := (heap h)(c := cl)\<rparr>,
              g_ctr := k, g_next := Suc c, reading := insert c (reading s),
              writing := insert c (writing s),
              wire := (wire s)(c := [SetReadLimit (MaxMessageSize (hub_cfg h))]),
              handshake := (handshake s)(c := answered roundTrip a r)\<rparr>)))"
| gw_read:
    "h = g_hub s \<Longrightarrow> c \<in> reading s \<Longrightarrow>
     read_step (hub_cfg h) c (connectionID (heap h c)) inp = (es, go_on) \<Longrightarrow> posts es h = Some h' \<Longrightarrow>
     gw_step mgr a s (Inr (s\<lparr>g_hub := h', reading := (if go_on then reading s else reading s - {c}),
       exiting := (if go_on then exiting s else insert c (exiting s)),
       wire := (wire s)(c := wire s c @ es)\<rparr>))"
| gw_exit:
    "c \<in> exiting s \<Longrightarrow> es = [CloseNow, PostUnregister c] \<Longrightarrow> posts es (g_hub s) = Some h' \<Longrightarrow>
     gw_step mgr a s (Inr (s\<lparr>g_hub := h', exiting := exiting s - {c},
       wire := (wire s)(c := wire s c @ es)\<rparr>))"
| gw_spawned:
    "h = g_hub s \<Longrightarrow> c \<in> set (spawned h) \<Longrightarrow> has_room (unregister h) \<Longrightarrow>
     gw_step mgr a s (Inr (s\<lparr>g_hub := h\<lparr>unregister := offer c (unregister h),
       spawned := remove1 c (spawned h)\<rparr>\<rparr>))"
| gw_write:
    "h = g_hub s \<Longrightarrow> c \<in> writing s \<Longrightarrow> wp_recv cs (heap h c) = Some k \<Longrightarrow>
     write_step (hub_cfg h) (connectionID (heap h c)) cs = (es, go_on) \<Longrightarrow>
     gw_step mgr a s (Inr (s\<lparr>g_hub := h\<lparr>heap := (heap h)(c := k)\<rparr>,
       writing := (if go_on then writing s else writing s - {c}),
       wire := (wire s)(c := wire s c @ es)\<rparr>))"
| gw_message:
    "h = g_hub s \<Longrightarrow> has_room (incoming h) \<Longrightarrow>
     gw_step mgr a s (Inr (s\<lparr>g_hub := h\<lparr>incoming := offer m (incoming h)\<rparr>,
       published := published s @ [m]\<rparr>))"
| gw_hub_turn:
    "hub_live s \<Longrightarrow> run_step mgr (g_hub s) r \<Longrightarrow>
     gw_step mgr a s (go_bind r (\<lambda>h. Inr (s\<lparr>g_hub := h\<rparr>)))"
| gw_cancel: "gw_step mgr a s (Inr (s\<lparr>hub_live := False\<rparr>))"

definition gw_next_state :: "'m channelManager option \<Rightarrow> Authenticator \<Rightarrow> 'm gateway \<Rightarrow> 'm gateway \<Rightarrow> bool" where
  "gw_next_state mgr a s s' = gw_step mgr a s (Inr s')"

end
