(* ===== verification/GatewayFacts.thy ===== *)
theory GatewayFacts
  imports Gateway
begin

text \<open>
  The invariant of the process: the hub's invariant, what is allocated, and that whatever is
  queued for a client or has been written to it is an error frame or the payload of a message
  published on a channel Django allowed it. \<open>gw_step_inv\<close> shows that every step keeps it and
  that the only panic is that of a ticker; the locale \<open>channel_manager\<close> adds that the manager
  stays in step with the hub's tables.
\<close>

section \<open>What a turn of the hub queues for a client\<close>

text \<open>
  \<open>grows J h h'\<close>: the clients' identities are as before, a client's send queue grew by at most
  one payload that \<open>J\<close> allows it, and signals were only added to its disconnect queue.
  \<open>effect J h h'\<close>: the queues of the process are as before too.
\<close>

definition same_id :: "client \<Rightarrow> client \<Rightarrow> bool" where
  "same_id k k' \<longleftrightarrow> userID k' = userID k \<and> sessionKey k' = sessionKey k \<and>
     connectionID k' = connectionID k \<and> allowedChannels k' = allowedChannels k \<and>
     cap (send k') = cap (send k) \<and> cap (disconnect k') = cap (disconnect k)"

definition queues_ok :: "client \<Rightarrow> bool" where
  "queues_ok k \<longleftrightarrow> length (buf (send k)) \<le> cap (send k) \<and> length (buf (disconnect k)) \<le> cap (disconnect k)"

definition queued_more :: "(client \<Rightarrow> bytes \<Rightarrow> bool) \<Rightarrow> client \<Rightarrow> client \<Rightarrow> bool" where
  "queued_more J k k' \<longleftrightarrow> same_id k k' \<and>
     (buf (send k') = buf (send k) \<or> (\<exists>p. buf (send k') = buf (send k) @ [p] \<and> J k p)) \<and>
     (\<exists>ds. buf (disconnect k') = buf (disconnect k) @ ds) \<and> (queues_ok k \<longrightarrow> queues_ok k')"

definition grows :: "(client \<Rightarrow> bytes \<Rightarrow> bool) \<Rightarrow> 'm hub \<Rightarrow> 'm hub \<Rightarrow> bool" where
  "grows J h h' \<longleftrightarrow> (\<forall>c. queued_more J (heap h c) (heap h' c))"

definition effect :: "(client \<Rightarrow> bytes \<Rightarrow> bool) \<Rightarrow> 'm hub \<Rightarrow> 'm hub \<Rightarrow> bool" where
  "effect J h h' \<longleftrightarrow> hub_cfg h' = hub_cfg h \<and> register h' = register h \<and> incoming h' = incoming h \<and>
     grows J h h'"

lemma same_id_refl [simp]: "same_id k k"
  by (simp add: same_id_def)

lemma same_id_trans: "same_id k k' \<Longrightarrow> same_id k' k'' \<Longrightarrow> same_id k k''"
  by (simp add: same_id_def)

lemma buf_offer_le: "length (buf ch) \<le> cap ch \<Longrightarrow> length (buf (offer x ch)) \<le> cap ch"
  by (simp add: buf_offer has_room_def)

lemma queued_more_same: "same_id k k' \<Longrightarrow> send k' = send k \<Longrightarrow> disconnect k' = disconnect k \<Longrightarrow> queued_more J k k'"
  by (simp add: queued_more_def queues_ok_def)

lemma queued_more_refl [simp]: "queued_more J k k"
  by (simp add: queued_more_same)

lemma queued_more_signal [simp]: "queued_more J k (signal co r k)"
  by (simp add: queued_more_def same_id_def signal_def queues_ok_def buf_offer_le) (simp add: buf_offer)

lemma queued_more_released [simp]: "queued_more J k (released k)"
  by (simp add: queued_more_def same_id_def released_def signal_def queues_ok_def buf_offer_le) (simp add: buf_offer)

lemma queued_more_subscribed [simp]: "queued_more J k (k\<lparr>subscribed := x\<rparr>)"
  by (simp add: queued_more_def same_id_def queues_ok_def)

lemma queued_more_delivered: "J k p \<Longrightarrow> queued_more J k (delivered p k)"
  by (cases "has_room (send k)") (simp_all add: delivered_def queued_more_def [of J k "k\<lparr>send := s\<rparr>" for s] same_id_def
      queues_ok_def buf_offer_le buf_offer has_room_def)

lemma effect_refl [simp]: "effect J h h"
  by (simp add: effect_def grows_def)

definition is_error_frame :: "bytes \<Rightarrow> bool" where
  "is_error_frame p \<longleftrightarrow> (\<exists>ch. p = error_frame ch ''invalid_channel'' \<or> p = error_frame ch ''forbidden'')"

definition grants :: "incomingMessage \<Rightarrow> client \<Rightarrow> bytes \<Rightarrow> bool" where
  "grants m k p \<longleftrightarrow> p = Payload m \<and> Channel m \<in> allowedChannels k \<and> valid_channel (Channel m)"

lemma effect_register:
  assumes "hub_inv h" and "\<not> closed (disconnect (heap h c))"
  shows "go_ok (effect J h) (handleRegister mgr c h)"
  using refuse_open [OF assms(2)]
  by (simp add: handleRegister_cases [OF assms(1)] effect_def grows_def)

lemma effect_unregister:
  assumes "hub_inv h"
  shows "go_ok (effect J h) (handleUnregister mgr ord c h)"
  using handleUnregister_cases [of c h mgr ord] hub_inv_client(1) [OF assms]
  by (simp add: effect_def grows_def)

lemma effect_subscribe:
  assumes "hub_inv h"
  shows "go_ok (effect (\<lambda>_. is_error_frame) h) (handleClientSubscribe mgr s h)"
proof -
  let ?c = "sub_client s" and ?ch = "sub_channel s"
  have "go_ok (effect (\<lambda>_. is_error_frame) h) (sendError ?c ?ch r h)"
    if "?c \<in> clients h" "is_error_frame (error_frame ?ch r)" for r
    using deliverFrame_open [OF hub_inv_client(1) [OF assms that(1)]] that(2)
    by (simp add: sendError_def effect_def grows_def queued_more_delivered)
  moreover have "is_error_frame (error_frame ?ch ''invalid_channel'')" "is_error_frame (error_frame ?ch ''forbidden'')"
    by (auto simp: is_error_frame_def)
  ultimately show ?thesis
    by (simp add: handleClientSubscribe_cases Let_def) (simp add: effect_def grows_def)
qed

lemma effect_unsubscribe: "effect J h (handleClientUnsubscribe mgr s h)"
  by (simp add: handleClientUnsubscribe_cases Let_def effect_def grows_def)

lemma effect_incoming:
  assumes "hub_inv h" and "ranges ord (entry (channels h (Channel m)))"
  shows "go_ok (effect (grants m) h) (handleIncoming ord m h)"
proof -
  have g: "grants m (heap h c) (Payload m)" if "c \<in> members h (Channel m)" "\<not> is_control (Channel m)" for c
  proof -
    have "may_hold (heap h c) (Channel m)"
      using that(1) hub_inv_client(3) [OF assms(1)] by (simp add: members_def)
    moreover have "Channel m \<notin> control_channels k" for k
      using that(2) by (auto simp: is_control_def control_channels_def session_channel_def user_channel_def)
    ultimately show ?thesis by (auto simp: grants_def may_hold_def valid_channel_def)
  qed
  show ?thesis
    using g by (simp add: handleIncoming_cases [OF assms] effect_def grows_def queued_more_delivered)
qed

definition allowed_payload :: "incomingMessage set \<Rightarrow> client \<Rightarrow> bytes \<Rightarrow> bool" where
  "allowed_payload ms k p \<longleftrightarrow> is_error_frame p \<or> (\<exists>m \<in> ms. grants m k p)"

lemma allowed_payload_same_id: "same_id k k' \<Longrightarrow> allowed_payload ms k' p = allowed_payload ms k p"
  by (simp add: allowed_payload_def grants_def same_id_def)

lemma allowed_payload_mono: "allowed_payload ms k p \<Longrightarrow> ms \<subseteq> ms' \<Longrightarrow> allowed_payload ms' k p"
  by (auto simp: allowed_payload_def)

text \<open>
  A turn of the hub's loop, seen from the process: it takes a message off \<open>incoming\<close> and
  queues it for clients it is granted to, or it leaves \<open>incoming\<close> alone and queues error frames.
\<close>

definition serves :: "'m hub \<Rightarrow> 'm hub \<Rightarrow> bool" where
  "serves h h' \<longleftrightarrow>
     buf (incoming h') = buf (incoming h) \<and> grows (\<lambda>_. is_error_frame) h h' \<or>
     (\<exists>m. buf (incoming h) = m # buf (incoming h') \<and> grows (grants m) h h')"

definition turn :: "'m hub \<Rightarrow> 'm hub \<Rightarrow> bool" where
  "turn h h' \<longleftrightarrow> hub_cfg h' = hub_cfg h \<and>
     set (buf (register h')) \<subseteq> set (buf (register h)) \<and>
     clients h' \<subseteq> clients h \<union> set (buf (register h)) \<and> serves h h'"

lemma turn_effect:
  assumes "effect (\<lambda>_. is_error_frame) g h'" and "heap g = heap h" "hub_cfg g = hub_cfg h"
    and "set (buf (register g)) \<subseteq> set (buf (register h))" "incoming g = incoming h"
    and "clients h' \<subseteq> clients h \<union> set (buf (register h))"
  shows "turn h h'"
  using assms by (simp add: turn_def effect_def serves_def grows_def)

lemma clients_handleRegister:
  assumes "hub_inv h" and "\<not> closed (disconnect (heap h c))"
  shows "go_ok (\<lambda>h'. clients h' \<subseteq> insert c (clients h)) (handleRegister mgr c h)"
  using refuse_open [OF assms(2)] by (auto simp: handleRegister_cases [OF assms(1)])

lemma run_step_turn:
  assumes step: "run_step mgr h r" and inv: "run_inv h"
  shows "go_ok (turn h) r"
proof -
  note hi = run_inv_hub [OF inv]
  show ?thesis
    using step
  proof cases
    case (run_register c ch)
    let ?h = "h\<lparr>register := ch\<rparr>"
    obtain cs where q: "buf (register h) = c # cs" "buf ch = cs" using run_register(2) by (auto simp: recv_chan_Received)
    have d: "\<not> closed (disconnect (heap ?h c))"
      using pending_open [OF inv run_register(2)] by simp
    have "go_ok (effect (\<lambda>_. is_error_frame) ?h) r" "go_ok (\<lambda>h'. clients h' \<subseteq> insert c (clients ?h)) r"
      using effect_register [of ?h c] clients_handleRegister [of ?h c] d hi run_register(1) by simp_all
    then show ?thesis using q by (auto simp: go_ok_Inr intro!: turn_effect [of ?h]) blast
  next
    case (run_unregister c ch ord)
    let ?h = "h\<lparr>unregister := ch\<rparr>"
    have "go_ok (effect (\<lambda>_. is_error_frame) ?h) r" using effect_unregister [of ?h] hi run_unregister(1) by simp
    moreover have "go_ok (\<lambda>h'. clients h' \<subseteq> clients ?h) r"
      using handleUnregister_cases [of c ?h mgr ord] hub_inv_client(1) [OF hi] run_unregister(1) by auto
    ultimately show ?thesis by (auto simp: go_ok_Inr intro!: turn_effect [of ?h])
  next
    case (run_subscribe s ch)
    let ?h = "h\<lparr>subscribe := ch\<rparr>"
    have "go_ok (effect (\<lambda>_. is_error_frame) ?h) r" "go_ok (keeps ?h) r"
      using effect_subscribe [of ?h] keeps_handleClientSubscribe [of ?h] hi run_subscribe(1) by simp_all
    then show ?thesis by (auto simp: go_ok_Inr keeps_def intro!: turn_effect [of ?h])
  next
    case (run_unsubscribe s ch)
    let ?h = "h\<lparr>unsubscribe := ch\<rparr>"
    have "effect (\<lambda>_. is_error_frame) ?h (handleClientUnsubscribe mgr s ?h)"
      "keeps ?h (handleClientUnsubscribe mgr s ?h)"
      by (rule effect_unsubscribe, rule keeps_handleClientUnsubscribe)
    then show ?thesis using run_unsubscribe(1) by (auto simp: keeps_def intro!: turn_effect [of ?h])
  next
    case (run_incoming m mch ord)
    let ?h = "h\<lparr>incoming := mch\<rparr>"
    have o: "ranges ord (entry (channels ?h (Channel m)))" using run_incoming(3) by simp
    have m: "buf (incoming h) = m # buf mch"
      using run_incoming(2) by (auto simp: recv_chan_Received)
    have "go_ok (effect (grants m) ?h) r" "go_ok (keeps ?h) r"
      using effect_incoming [OF _ o] keeps_handleIncoming [OF _ o] hi run_incoming(1) by simp_all
    with m show ?thesis by (auto simp: go_ok_Inr turn_def serves_def effect_def keeps_def grows_def)
  qed
qed

lemma serves_incoming: "serves h h' \<Longrightarrow> set (buf (incoming h')) \<subseteq> set (buf (incoming h))"
  by (auto simp: serves_def)

lemma serves_queued: "serves h h' \<Longrightarrow> queued_more (allowed_payload (set (buf (incoming h)))) (heap h c) (heap h' c)"
  by (auto simp: serves_def grows_def queued_more_def allowed_payload_def)

section \<open>The invariant of the process\<close>

definition gw_inv :: "config \<Rightarrow> 'm gateway \<Rightarrow> bool" where
  "gw_inv cfg s \<longleftrightarrow> run_inv (g_hub s) \<and> hub_cfg (g_hub s) = cfg \<and>
     clients (g_hub s) \<subseteq> {..<g_next s} \<and> set (buf (register (g_hub s))) \<subseteq> {..<g_next s} \<and>
     reading s \<union> exiting s \<union> writing s \<subseteq> {..<g_next s} \<and>
     set (buf (incoming (g_hub s))) \<subseteq> set (published s) \<and>
     (\<forall>c < g_next s. \<forall>p \<in> set (buf (send (heap (g_hub s) c))) \<union> set (written (wire s c)).
        allowed_payload (set (published s)) (heap (g_hub s) c) p)"

lemma gw_inv_start: "gw_inv cfg (gw_start (NewHub cfg m hp))"
  by (simp add: gw_inv_def gw_start_def run_inv_def hub_inv_new)
     (simp add: NewHub_def caps_ok_def pending_ok_def owned_def)

lemma post_run_inv:
  "post e h = Some h' \<Longrightarrow> run_inv h \<Longrightarrow> run_inv h'"
  by (cases e) (auto split: if_splits)

lemma post_frame:
  "post e h = Some h' \<Longrightarrow> hub_cfg h' = hub_cfg h \<and> clients h' = clients h \<and> register h' = register h \<and>
     incoming h' = incoming h \<and> heap h' = heap h \<and> manager h' = manager h \<and> channels h' = channels h \<and>
     hub_log h' = hub_log h"
  by (cases e) (auto split: if_splits)

lemma posts_run_inv: "posts es h = Some h' \<Longrightarrow> run_inv h \<Longrightarrow> run_inv h'"
  by (induction es arbitrary: h) (auto simp: post_run_inv split: bind_splits)

lemma posts_frame:
  "posts es h = Some h' \<Longrightarrow> hub_cfg h' = hub_cfg h \<and> clients h' = clients h \<and> register h' = register h \<and>
     incoming h' = incoming h \<and> heap h' = heap h \<and> manager h' = manager h \<and> channels h' = channels h \<and>
     hub_log h' = hub_log h"
  by (induction es arbitrary: h) (auto dest!: post_frame split: bind_splits)

lemma read_step_written: "read_step cfg c cn inp = (es, go_on) \<Longrightarrow> written es = []"
  by (auto simp: read_step_def frame_events_def split: prod.splits if_splits read_outcome.splits option.splits)

lemma ws_client_fresh:
  assumes "ws_client nano now res k = (k', cl)"
  shows "open_client cl" "subscribed cl = {}" "buf (send cl) = []" "userID cl = ar_UserID res"
    "sessionKey cl = ar_SessionKey res" "allowedChannels cl = set (ar_AllowedChannels res)"
  using assms
  by (auto simp: ws_client_def newPumpClient_def open_client_def union_set_fold [symmetric]
      split: prod.splits)

lemma wp_recv_same:
  assumes "wp_recv cs k = Some k'"
  shows "same_client k k'"
  using assms
  by (auto simp: wp_recv_def same_client_def recv_chan_def split: wp_case.splits recv.splits if_splits list.splits)

lemma run_inv_same:
  assumes inv: "run_inv h" and "clients h' = clients h" "userClients h' = userClients h"
    "channels h' = channels h" "register h' = register h" "hub_cfg h' = hub_cfg h"
    and same: "\<And>c. same_client (heap h c) (heap h' c)"
  shows "run_inv h'"
proof -
  have hub: "hub_inv h'"
    by (rule hub_inv_same [OF _ assms(2-4) same]) (use inv in \<open>simp add: run_inv_def\<close>)
  have k: "userID (heap h' c) = userID (heap h c)" "subscribed (heap h' c) = subscribed (heap h c)"
    "open_client (heap h' c) = open_client (heap h c)" for c
    using same [of c] by (auto simp: same_client_def open_client_def)
  then have "owned h' u = owned h u" "fresh_client c h' = fresh_client c h" for u c
    by (simp_all add: owned_def fresh_client_def assms(2))
  with hub inv show ?thesis by (simp add: run_inv_def caps_ok_def pending_ok_def assms(2,5,6))
qed

lemma run_inv_arrive:
  assumes inv: "run_inv h" and c: "c \<notin> clients h" "c \<notin> set (buf (register h))"
    and cl: "open_client cl" "subscribed cl = {}" and room: "has_room (register h)"
  shows "run_inv (h\<lparr>register := offer c (register h), heap := (heap h)(c := cl)\<rparr>)"
proof -
  let ?h = "h\<lparr>register := offer c (register h), heap := (heap h)(c := cl)\<rparr>"
  have "members ?h ch = members h ch" "owned ?h u = owned h u" for ch u
    using c(1) by (auto simp: members_def owned_def)
  moreover have "fresh_client d ?h" if "d \<in> set (buf (register ?h))" for d
    using that inv c cl room by (auto simp: run_inv_def pending_ok_def fresh_client_def buf_offer)
  moreover have "heap ?h d = heap h d" if "d \<in> clients h" for d using that c(1) by auto
  ultimately show ?thesis
    using inv c(2) room by (simp add: run_inv_def hub_inv_def caps_ok_def pending_ok_def buf_offer)
qed

lemma gw_step_inv:
  assumes "gw_step mgr a s r" and "gw_inv cfg s"
  shows "go_ok (gw_inv cfg) r \<or> PingInterval cfg \<le> 0 \<and> r = Inl NonPositiveTicker"
proof -
  let ?g = "g_hub s"
  have inv: "run_inv ?g" "hub_cfg ?g = cfg" and below: "clients ?g \<subseteq> {..<g_next s}"
      "set (buf (register ?g)) \<subseteq> {..<g_next s}" "reading s \<union> exiting s \<union> writing s \<subseteq> {..<g_next s}"
      and pub: "set (buf (incoming ?g)) \<subseteq> set (published s)"
      and pay: "\<And>c p. c < g_next s \<Longrightarrow> p \<in> set (buf (send (heap ?g c))) \<union> set (written (wire s c)) \<Longrightarrow>
        allowed_payload (set (published s)) (heap ?g c) p"
    using assms(2) by (simp_all add: gw_inv_def)
  show ?thesis
    using assms(1)
  proof cases
    case (gw_connect h c newRequest roundTrip accept rq l res nano now k cl)
    note fresh = ws_client_fresh [OF gw_connect(5)]
    have "c \<notin> clients ?g" "c \<notin> set (buf (register ?g))" using below gw_connect(3) by auto
    then have "run_inv (?g\<lparr>register := offer c (register ?g), heap := (heap ?g)(c := cl)\<rparr>)"
      using inv(1) fresh(1,2) gw_connect(2,6) by (intro run_inv_arrive) simp_all
    then show ?thesis
      using gw_connect inv below pub pay fresh
      by (auto simp: gw_inv_def NewTicker_def buf_offer less_Suc_eq)
  next
    case (gw_read h c inp es go_on h')
    note fr = posts_frame [OF gw_read(5)] and w = read_step_written [OF gw_read(4)]
    have "run_inv h'" using posts_run_inv [OF gw_read(5)] inv gw_read(2) by simp
    then show ?thesis
      using gw_read fr w inv below pub pay by (auto simp: gw_inv_def)
  next
    case (gw_exit c es h')
    note fr = posts_frame [OF gw_exit(4)]
    have "run_inv h'" using posts_run_inv [OF gw_exit(4)] inv by simp
    then show ?thesis
      using gw_exit fr inv below pub pay by (auto simp: gw_inv_def)
  next
    case (gw_spawned h c)
    then show ?thesis using inv below pub pay by (simp add: gw_inv_def)
  next
    case (gw_write h c cs k es go_on)
    note same = wp_recv_same [OF gw_write(4)]
    let ?h = "h\<lparr>heap := (heap h)(c := k)\<rparr>"
    have "run_inv ?h" by (rule run_inv_same [of h]) (use inv same gw_write(2) in auto)
    moreover have id: "same_id (heap h c) k" using same by (simp add: same_client_def same_id_def)
    have "written es @ buf (send k) = buf (send (heap h c))"
      using wp_recv_send [OF gw_write(4), of "hub_cfg h" "connectionID (heap h c)"] gw_write(5) by simp
    then have "set (buf (send k)) \<union> set (written es) = set (buf (send (heap h c)))"
      by (metis set_append sup_commute)
    then have "allowed_payload (set (published s)) k p"
      if "p \<in> set (buf (send k)) \<union> set (written (wire s c @ es))" for p
      using that pay [of c p] below(3) gw_write(2,3) by (auto simp: allowed_payload_same_id [OF id])
    ultimately show ?thesis
      using gw_write inv below pub pay by (auto simp: gw_inv_def)
  next
    case (gw_message h m)
    have mono: "allowed_payload (set (published s)) k p \<Longrightarrow>
        allowed_payload (insert m (set (published s))) k p" for k p
      by (rule allowed_payload_mono) auto
    show ?thesis
      using gw_message inv below pub pay by (auto simp: gw_inv_def buf_offer intro!: mono)
  next
    case (gw_hub_turn q)
    obtain h' where q: "q = Inr h'" "run_inv h'" "turn ?g h'"
      using run_step_safe [OF gw_hub_turn(3) inv(1)] run_step_turn [OF gw_hub_turn(3) inv(1)]
      by (auto simp: go_ok_Inr)
    have sv: "serves ?g h'" using q(3) by (simp add: turn_def)
    have "allowed_payload (set (published s)) (heap h' c) p"
      if "c < g_next s" "p \<in> set (buf (send (heap h' c))) \<union> set (written (wire s c))" for c p
    proof -
      note more = serves_queued [OF sv, of c]
      then have id: "same_id (heap ?g c) (heap h' c)" by (simp add: queued_more_def)
      have "p \<in> set (buf (send (heap ?g c))) \<union> set (written (wire s c)) \<or>
          allowed_payload (set (buf (incoming ?g))) (heap ?g c) p"
        using more that(2) by (auto simp: queued_more_def)
      then show ?thesis
        using pay [OF that(1)] allowed_payload_mono [OF _ pub] by (auto simp: allowed_payload_same_id [OF id])
    qed
    moreover have "clients h' \<subseteq> {..<g_next s}" "set (buf (register h')) \<subseteq> {..<g_next s}"
      "set (buf (incoming h')) \<subseteq> set (published s)" "hub_cfg h' = cfg"
      using q(3) serves_incoming [OF sv] below pub inv(2) by (auto simp: turn_def)
    ultimately show ?thesis
      using gw_hub_turn(1) q(1,2) below(3) by (simp add: gw_inv_def)
  next
    case gw_cancel
    then show ?thesis using assms(2) by (simp add: gw_inv_def)
  qed
qed

interpretation gw: invariant_system "\<lambda>s. \<exists>m hp. s = gw_start (NewHub cfg m hp)" "gw_next_state mgr a" "gw_inv cfg"
  for cfg mgr a
  by unfold_locales (auto simp: gw_inv_start gw_next_state_def dest: gw_step_inv)

lemma gw_step_manager:
  assumes step: "gw_step (Some M) a s (Inr s')" and inv: "gw_inv cfg s" and P: "P (manager (g_hub s))"
    and sub: "\<And>c ch m. c < g_next s \<Longrightarrow> may_hold (heap (g_hub s) c) ch \<Longrightarrow> P m \<Longrightarrow> P (fst (Subscribe M ch m))"
    and unsub: "\<And>ch m. P m \<Longrightarrow> P (fst (Unsubscribe M ch m))"
  shows "P (manager (g_hub s'))"
  using step
proof cases
  case (gw_connect h c newRequest roundTrip accept rq l res nano now k cl)
  then show ?thesis using P by (auto simp: go_bind_eq_Inr dest!: sym [of "Inr s'"])
next
  case (gw_read h c inp es go_on h')
  then show ?thesis using P posts_frame [OF gw_read(5)] by simp
next
  case (gw_exit c es h')
  then show ?thesis using P posts_frame [OF gw_exit(4)] by simp
next
  case (gw_hub_turn q)
  have ri: "run_inv (g_hub s)" using inv by (simp add: gw_inv_def)
  have "go_ok (\<lambda>h. P (manager h)) q"
  proof (rule run_step_manager [where P = P, OF gw_hub_turn(3) ri P])
    show "P (fst (Subscribe M ch m))"
      if "c \<in> clients (g_hub s) \<union> set (buf (register (g_hub s)))" "may_hold (heap (g_hub s) c) ch" "P m" for c ch m
      using that inv by (intro sub [of c]) (auto simp: gw_inv_def)
  qed (rule unsub)
  with gw_hub_turn(1) show ?thesis by (auto simp: go_ok_Inr)
qed (use P in simp_all)

section \<open>The manager in step with the tables\<close>

context channel_manager
begin

lemma sync_gw_step:
  assumes step: "gw_step (Some M) a s (Inr s')" and inv: "gw_inv cfg s"
    and sync: "redis_sync held ok faulty (g_hub s)"
  shows "redis_sync held ok faulty (g_hub s')"
  using step
proof cases
  case (gw_connect h c newRequest roundTrip accept rq l res nano now k cl)
  then show ?thesis
    using sync by (auto simp: go_bind_eq_Inr elim!: redis_sync_same dest!: sym [of "Inr s'"])
next
  case (gw_read h c inp es go_on h')
  then show ?thesis using posts_frame [OF gw_read(5)] by (auto intro: redis_sync_same [OF sync])
next
  case (gw_exit c es h')
  then show ?thesis using posts_frame [OF gw_exit(4)] by (auto intro: redis_sync_same [OF sync])
next
  case (gw_spawned h c)
  then show ?thesis by (auto intro: redis_sync_same [OF sync])
next
  case (gw_write h c cs k es go_on)
  then show ?thesis by (auto intro: redis_sync_same [OF sync])
next
  case (gw_message h m)
  then show ?thesis by (auto intro: redis_sync_same [OF sync])
next
  case (gw_hub_turn q)
  have "run_inv (g_hub s)" using inv by (simp add: gw_inv_def)
  from sync_run_step [OF gw_hub_turn(3) this sync] gw_hub_turn(1) show ?thesis
    by (cases q) auto
next
  case gw_cancel
  then show ?thesis using sync by simp
qed

lemma sync_start:
  "ok m \<Longrightarrow> held m = {} \<Longrightarrow> redis_sync held ok faulty (NewHub cfg m hp)"
  by (simp add: redis_sync_def NewHub_def)

end

text \<open>The process over the Redis subscriber, from the state \<open>main\<close> sets up.\<close>

definition redis_gw_inv :: "config \<Rightarrow> unit redisSubscriber gateway \<Rightarrow> bool" where
  "redis_gw_inv cfg s \<longleftrightarrow> gw_inv cfg s \<and> redis_sync rs_held rs_single rs_faulty (g_hub s)"

definition main_manager :: "unit redisSubscriber" where
  "main_manager = \<lparr>deliver = Some (), activeChans = Map.empty, rs_closed = False, started = True,
     read_loops = 1, issued = []\<rparr>"

lemma main_manager_simps [simp]:
  "rs_single main_manager" "rs_held main_manager = {}" "issued main_manager = []"
  "deliver main_manager = Some ()" "read_loops main_manager = 1"
  by (simp_all add: main_manager_def rs_single_def rs_inv_def rs_held_def refcount_def)

lemma main_start_Inr:
  assumes "main_start env parseURL = Inr (cfg, a, h)"
  shows "Load env = Inr cfg" "a = NewAuthenticator cfg" "h = NewHub cfg main_manager (\<lambda>_. no_client)"
  using assms
  by (auto simp: main_start_def Let_def NewRedisSubscriber_def rs_Start_def rs_SetDeliver_def
      main_manager_def split: sum.splits option.splits)

interpretation redis_gw: invariant_system
  "\<lambda>s. \<exists>env parseURL a h. main_start env parseURL = Inr (cfg, a, h) \<and> s = gw_start h"
  "gw_next_state (Some (redisManager net)) a" "redis_gw_inv cfg"
  for cfg net a
proof
  show "redis_gw_inv cfg s"
    if "\<exists>env parseURL a h. main_start env parseURL = Inr (cfg, a, h) \<and> s = gw_start h" for s
  proof -
    have "redis_gw_inv cfg (gw_start (NewHub cfg main_manager hp))" for hp
      using rsub.sync_start [of main_manager cfg hp] gw_inv_start [of cfg main_manager hp]
      by (simp add: redis_gw_inv_def gw_start_def)
    with that main_start_Inr(3) show ?thesis by blast
  qed
  show "redis_gw_inv cfg s'" if "redis_gw_inv cfg s" "gw_next_state (Some (redisManager net)) a s s'" for s s'
    using that gw.step_inv [of cfg s] rsub.sync_gw_step by (auto simp: redis_gw_inv_def gw_next_state_def)
qed

end
