(* ===== verification/GatewayRun.thy ===== *)
theory GatewayRun
  imports GatewayFacts "HOL-Library.Sublist"
begin

text \<open>
  The states the process reaches from the one \<open>main\<close> sets up, and two concrete runs: one in
  which a client connects, subscribes and is sent a message, and one in which a client's
  unregister request overtakes its registration. They show that the hypotheses of the
  properties of reachable states are met by states in which something has happened.
\<close>

section \<open>Reachable states\<close>

definition reaches :: "environment \<Rightarrow> (string \<Rightarrow> go_error option) \<Rightarrow> redis_net \<Rightarrow> config \<Rightarrow>
    unit redisSubscriber gateway \<Rightarrow> bool" where
  "reaches env parseURL net cfg s \<longleftrightarrow>
     (\<exists>a h. main_start env parseURL = Inr (cfg, a, h) \<and>
        (gw_next_state (Some (redisManager net)) a)^** (gw_start h) s)"

lemma reaches_inv: "reaches env parseURL net cfg s \<Longrightarrow> redis_gw_inv cfg s"
  using redis_gw.reachable_inv [of cfg _ net] unfolding reaches_def by blast

lemma reaches_manager:
  assumes "reaches env parseURL net cfg s" and "P main_manager"
    and "\<And>ch m. P m \<Longrightarrow> P (fst (Subscribe (redisManager net) ch m))"
    and "\<And>ch m. P m \<Longrightarrow> P (fst (Unsubscribe (redisManager net) ch m))"
  shows "P (manager (g_hub s))"
proof -
  obtain a h where h: "main_start env parseURL = Inr (cfg, a, h)"
    and run: "(gw_next_state (Some (redisManager net)) a)^** (gw_start h) s"
    using assms(1) by (auto simp: reaches_def)
  from run show ?thesis
  proof (induction rule: rtranclp_induct)
    case base
    show ?case using assms(2) by (simp add: main_start_Inr(3) [OF h] gw_start_def NewHub_def)
  next
    case (step y z)
    have "reaches env parseURL net cfg y" using h step.hyps(1) unfolding reaches_def by blast
    then have "gw_inv cfg y" using reaches_inv by (simp add: redis_gw_inv_def)
    from gw_step_manager [where P = P, OF step.hyps(2) [unfolded gw_next_state_def] this step.IH assms(3,4)] show ?case .
  qed
qed

section \<open>A request Django answers\<close>

definition sample_request :: ws_request where
  "sample_request = \<lparr>req_Method = ''GET'', req_Path = ''/ws/'', rq_Origin = ''https://a.example'', rq_sessionid = Some ''k1''\<rparr>"

lemma sample_routes: "main_mux ''GET'' ''/ws/'' = ToWs" "main_mux ''GET'' ''/healthz'' = ToHealthz"
  by code_simp+

lemma sample_request_route: "main_mux (req_Method sample_request) (req_Path sample_request) = ToWs"
  by (simp add: sample_request_def sample_routes)

definition sample_django :: "http_request \<Rightarrow> go_error + http_response" where
  "sample_django rq =
     Inr \<lparr>rs_status = 200, rs_body = ws_auth_body 5 ''ann'' [''news''], rs_body_err = None\<rparr>"

definition sample_result :: AuthResult where
  "sample_result = \<lparr>ar_UserID = 5, ar_Username = ''ann'', ar_AllowedChannels = [''news''],
     ar_SessionKey = ''k1''\<rparr>"

lemma sample_parse: "parse_auth (ws_auth_body 5 ''ann'' [''news'']) =
    Some \<lparr>Authenticated = True, resp_UserID = 5, resp_Username = ''ann'', resp_AllowedChannels = ([''news''], 1)\<rparr>"
  by (simp add: parse_ws_auth_body plain_char_def between_def int64_range_def)

lemma sample_upgrade:
  "wsHandler sample_config (Validate (\<lambda>_. None) sample_django a) (\<lambda>_ _. None) sample_request =
     ([], Upgraded sample_result)"
proof -
  have "length (ws_auth_body 5 ''ann'' [''news'']) < bodyLimit"
    by (simp add: ws_auth_body_def quoted_def FormatInt_def dec_nat.simps bodyLimit_def)
  then have "Validate (\<lambda>_. None) sample_django a ''k1'' = ([], Inr sample_result)"
    by (simp add: Validate_def check_response_accepts sample_django_def read_limited_def sample_parse
        sample_result_def slice_elems_def)
  then show ?thesis by (simp add: wsHandler_def sample_request_def sample_config_def)
qed

lemma sample_main: "main_start sample_env (\<lambda>_. None) =
    Inr (sample_config, NewAuthenticator sample_config,
      NewHub sample_config main_manager (\<lambda>_. no_client))"
  by (simp add: main_start_def Load_sample NewRedisSubscriber_def rs_Start_def rs_SetDeliver_def
      main_manager_def)

lemma reaches_start: "reaches sample_env (\<lambda>_. None) net sample_config
    (gw_start (NewHub sample_config main_manager (\<lambda>_. no_client)))"
  using sample_main by (auto simp: reaches_def)

section \<open>A run\<close>

text \<open>Steps out of a state of the process, by what they need of it.\<close>

lemma step_connect:
  assumes "wsHandler (hub_cfg (g_hub s)) (Validate newRequest roundTrip a) accept r = (l, Upgraded res)"
    and "has_room (register (g_hub s))" and "0 < PingInterval (hub_cfg (g_hub s))"
    and "ws_client nano now res (g_ctr s) = (k, cl)" and "main_mux (req_Method r) (req_Path r) = ToWs"
  shows "gw_next_state mgr a s
    (s\<lparr>g_hub := (g_hub s)\<lparr>register := offer (g_next s) (register (g_hub s)), heap := (heap (g_hub s))(g_next s := cl)\<rparr>,
       g_ctr := k, g_next := Suc (g_next s), reading := insert (g_next s) (reading s),
       writing := insert (g_next s) (writing s),
       wire := (wire s)(g_next s := [SetReadLimit (MaxMessageSize (hub_cfg (g_hub s)))]),
       handshake := (handshake s)(g_next s := answered roundTrip a r)\<rparr>)"
proof -
  have "gw_step mgr a s (go_bind (NewTicker (PingInterval (hub_cfg (g_hub s)))) (\<lambda>_.
     Inr (s\<lparr>g_hub := (g_hub s)\<lparr>register := offer (g_next s) (register (g_hub s)), heap := (heap (g_hub s))(g_next s := cl)\<rparr>,
       g_ctr := k, g_next := Suc (g_next s), reading := insert (g_next s) (reading s),
       writing := insert (g_next s) (writing s),
       wire := (wire s)(g_next s := [SetReadLimit (MaxMessageSize (hub_cfg (g_hub s)))]),
       handshake := (handshake s)(g_next s := answered roundTrip a r)\<rparr>)))"
    by (rule gw_connect [OF refl refl assms(1,4,2,5)])
  then show ?thesis using assms(3) by (simp add: gw_next_state_def NewTicker_def)
qed

lemma step_hub:
  assumes "hub_live s" and "run_step mgr (g_hub s) (Inr h)"
  shows "gw_next_state mgr a s (s\<lparr>g_hub := h\<rparr>)"
  using gw_hub_turn [OF assms, of a] by (simp add: gw_next_state_def)

definition client_frame :: "string \<Rightarrow> string \<Rightarrow> bytes" where
  "client_frame action channel = ''{'' @ dumps_members [(''action'', action), (''channel'', channel)] @ ''}''"

lemma parse_client_frame:
  assumes "list_all plain_char action" and "list_all plain_char channel"
  shows "parse_frame (client_frame action channel) = Some \<lparr>cf_Action = action, cf_Channel = channel\<rparr>"
proof -
  have "plain_members [(''action'', action), (''channel'', channel)]"
    using assms by (simp add: plain_members_def plain_char_def between_def)
  from conjunct1 [OF parse_dumps_members [OF _ this], of "Suc 0" "[]"]
  have "json_document (client_frame action channel) =
      Some (JObj [(''action'', JStr action), (''channel'', JStr channel)])"
    by (simp add: json_document_def client_frame_def parse_json.simps(1) skip_ws_head maxNestingDepth_def)
  moreover have "foldName ''action'' = ''ACTION''" "foldName ''channel'' = ''CHANNEL''"
    by (simp_all add: foldName.simps upper_char_def between_def) code_simp+
  ultimately show ?thesis by (simp add: parse_frame_def Unmarshal_def frame_field_def is_field_def)
qed

abbreviation "demo_a \<equiv> NewAuthenticator sample_config"
abbreviation "demo_m \<equiv> Some (redisManager no_faults)"

definition demo_client :: client where
  "demo_client = snd (ws_client 1 2 sample_result newCounter)"

definition demo0 :: "unit redisSubscriber gateway" where
  "demo0 = gw_start (NewHub sample_config main_manager (\<lambda>_. no_client))"

abbreviation "demo_reaches \<equiv> reaches sample_env (\<lambda>_. None) no_faults sample_config"

lemma demo_step: "demo_reaches s \<Longrightarrow> gw_next_state demo_m demo_a s s' \<Longrightarrow> demo_reaches s'"
  using sample_main main_start_Inr(2) unfolding reaches_def
  by (metis rtranclp.rtrancl_into_rtrancl)

definition idle :: "'m hub \<Rightarrow> bool" where
  "idle h \<longleftrightarrow> register h = make_chan 8 \<and> unregister h = make_chan 8 \<and> subscribe h = make_chan 32 \<and>
     unsubscribe h = make_chan 32 \<and> incoming h = make_chan 256 \<and> spawned h = []"

text \<open>
  \<open>at_rest k s\<close>: client 0 is registered, its struct is \<open>k\<close>, its pumps run, no queue holds anything
  and no message has been handed to the hub.
\<close>

definition at_rest :: "client \<Rightarrow> unit redisSubscriber gateway \<Rightarrow> bool" where
  "at_rest k s \<longleftrightarrow> demo_reaches s \<and> idle (g_hub s) \<and> hub_live s \<and> clients (g_hub s) = {0} \<and>
     heap (g_hub s) 0 = k \<and> reading s = {0} \<and> writing s = {0} \<and> exiting s = {} \<and> g_next s = 1 \<and>
     published s = []"

lemma demo_client_fresh: "open_client demo_client" "subscribed demo_client = {}" "buf (send demo_client) = []"
    "userID demo_client = 5" "sessionKey demo_client = ''k1''" "allowedChannels demo_client = {''news''}"
  using ws_client_fresh [of 1 2 sample_result newCounter "fst (ws_client 1 2 sample_result newCounter)" demo_client]
  by (simp_all add: demo_client_def sample_result_def)

lemma demo_client_queues: "send demo_client = make_chan 64" "disconnect demo_client = make_chan 1"
  by (simp_all add: demo_client_def ws_client_def newPumpClient_def split: prod.splits)

lemma demo0_simps [simp]: "g_next demo0 = 0" "reading demo0 = {}" "exiting demo0 = {}" "writing demo0 = {}"
    "hub_live demo0" "idle (g_hub demo0)" "hub_cfg (g_hub demo0) = sample_config" "clients (g_hub demo0) = {}"
    "register (g_hub demo0) = make_chan 8" "g_ctr demo0 = newCounter" "hub_inv (g_hub demo0)"
    "published demo0 = []"
  by (simp_all add: demo0_def gw_start_def idle_def hub_inv_new) (simp_all add: NewHub_def)

text \<open>The client is accepted; its registration is queued.\<close>

definition demo1 :: "unit redisSubscriber gateway" where
  "demo1 = (let h = g_hub demo0
    in demo0\<lparr>g_hub := h\<lparr>register := offer 0 (register h), heap := (heap h)(0 := demo_client)\<rparr>,
       g_ctr := fst (ws_client 1 2 sample_result newCounter), g_next := 1, reading := {0}, writing := {0},
       wire := (wire demo0)(0 := [SetReadLimit (MaxMessageSize sample_config)]),
       handshake := (handshake demo0)(0 := answered sample_django demo_a sample_request)\<rparr>)"

lemma demo1_reached: "demo_reaches demo1"
proof -
  have up: "wsHandler (hub_cfg (g_hub demo0)) (Validate (\<lambda>_. None) sample_django demo_a) (\<lambda>_ _. None) sample_request =
      ([], Upgraded sample_result)"
    by (simp add: sample_upgrade)
  have cl: "ws_client 1 2 sample_result (g_ctr demo0) = (fst (ws_client 1 2 sample_result newCounter), demo_client)"
    by (simp add: demo_client_def)
  have ping: "0 < PingInterval (hub_cfg (g_hub demo0))" by (simp add: sample_config_def Second_def)
  have room: "has_room (register (g_hub demo0))" by (simp add: has_room_def)
  have "gw_next_state demo_m demo_a demo0 demo1"
    using step_connect [OF up room ping cl sample_request_route, of demo_m] by (simp add: demo1_def Let_def)
  moreover have "demo_reaches demo0" unfolding demo0_def by (rule reaches_start)
  ultimately show ?thesis by (blast intro: demo_step)
qed

lemma demo1_simps [simp]: "g_next demo1 = 1" "reading demo1 = {0}" "exiting demo1 = {}" "writing demo1 = {0}"
    "hub_live demo1" "clients (g_hub demo1) = {}" "hub_cfg (g_hub demo1) = sample_config"
    "heap (g_hub demo1) 0 = demo_client" "register (g_hub demo1) = offer 0 (make_chan 8)" "published demo1 = []"
  by (simp_all add: demo1_def Let_def)

lemma reaches_hub_inv: "reaches env parseURL net cfg s \<Longrightarrow> hub_inv (g_hub s)"
  using reaches_inv by (auto simp: redis_gw_inv_def gw_inv_def run_inv_def)

lemma demo_registers:
  assumes "demo_reaches s" and "hub_live s" and "clients (g_hub s) = {}" and "hub_cfg (g_hub s) = sample_config"
    and "register (g_hub s) = offer 0 (make_chan 8)"
  shows "demo_reaches (s\<lparr>g_hub := registered demo_m 0 ((g_hub s)\<lparr>register := make_chan 8\<rparr>)\<rparr>)"
proof -
  let ?h = "(g_hub s)\<lparr>register := make_chan 8\<rparr>"
  have inv: "hub_inv ?h" using reaches_hub_inv [OF assms(1)] by simp
  have "recv_chan (register (g_hub s)) = Received 0 (make_chan 8)"
    by (simp add: assms(5) recv_chan_def offer_def has_room_def make_chan_def)
  from run_register [OF this, of demo_m]
  have "run_step demo_m (g_hub s) (handleRegister demo_m 0 ?h)" .
  moreover have "\<not> total_full ?h" "\<not> user_full ?h u" for u
    using assms(3,4) by (simp_all add: total_full_def user_full_def owned_def sample_config_def)
  then have "handleRegister demo_m 0 ?h = Inr (registered demo_m 0 ?h)" by (simp add: handleRegister_cases [OF inv])
  ultimately show ?thesis using step_hub [OF assms(2)] demo_step [OF assms(1)] by metis
qed

lemma demo2: "\<exists>s. at_rest (demo_client\<lparr>subscribed := control_channels demo_client\<rparr>) s"
proof -
  let ?s = "demo1\<lparr>g_hub := registered demo_m 0 ((g_hub demo1)\<lparr>register := make_chan 8\<rparr>)\<rparr>"
  have "demo_reaches ?s" by (rule demo_registers [OF demo1_reached]) simp_all
  moreover have "idle (g_hub ?s)" using demo0_simps(6) by (simp add: idle_def demo1_def Let_def)
  ultimately have "at_rest (demo_client\<lparr>subscribed := control_channels demo_client\<rparr>) ?s"
    by (simp add: at_rest_def demo_client_fresh)
  then show ?thesis by blast
qed


text \<open>Its read pump takes a subscribe frame for an allowed channel.\<close>

abbreviation "demo_sub \<equiv> \<lparr>sub_client = 0, sub_channel = ''news''\<rparr>"

definition asking :: "unit redisSubscriber gateway \<Rightarrow> unit redisSubscriber gateway" where
  "asking s = s\<lparr>g_hub := (g_hub s)\<lparr>subscribe := offer demo_sub (subscribe (g_hub s))\<rparr>,
     wire := (wire s)(0 := wire s 0 @ [StartRead (PongTimeout (hub_cfg (g_hub s))), PostSubscribe demo_sub])\<rparr>"

lemma demo_asks:
  assumes "demo_reaches s" and "hub_live s" and "0 \<in> reading s" and q: "subscribe (g_hub s) = make_chan 32"
  shows "demo_reaches (asking s)"
    and "handleClientSubscribe demo_m demo_sub (g_hub s) = Inr h' \<Longrightarrow> demo_reaches ((asking s)\<lparr>g_hub := h'\<rparr>)"
proof -
  let ?h = "g_hub s"
  let ?cfg = "hub_cfg ?h"
  have "parse_frame (client_frame ''subscribe'' ''news'') = Some \<lparr>cf_Action = ''subscribe'', cf_Channel = ''news''\<rparr>"
    by (rule parse_client_frame) (simp_all add: plain_char_def between_def)
  then have rs: "read_step ?cfg 0 (connectionID (heap ?h 0)) (False, ReadFrame (client_frame ''subscribe'' ''news'')) =
      ([StartRead (PongTimeout ?cfg), PostSubscribe demo_sub], True)"
    by (simp add: read_step_def frame_events_def)
  have ps: "posts [StartRead (PongTimeout ?cfg), PostSubscribe demo_sub] ?h =
      Some (?h\<lparr>subscribe := offer demo_sub (subscribe ?h)\<rparr>)"
    using q by (simp add: has_room_def)
  from gw_read [OF refl assms(3) rs ps, of demo_m demo_a]
  have "gw_next_state demo_m demo_a s (asking s)" by (simp add: gw_next_state_def asking_def)
  with assms(1) show r1: "demo_reaches (asking s)" by (rule demo_step)
  have "recv_chan (subscribe (g_hub (asking s))) = Received demo_sub (make_chan 32)"
    by (simp add: asking_def q recv_chan_def offer_def has_room_def make_chan_def)
  from run_subscribe [OF this, of demo_m] q [symmetric]
  have "run_step demo_m (g_hub (asking s)) (handleClientSubscribe demo_m demo_sub ?h)" by (simp add: asking_def)
  then show "handleClientSubscribe demo_m demo_sub ?h = Inr h' \<Longrightarrow> demo_reaches ((asking s)\<lparr>g_hub := h'\<rparr>)"
    using step_hub [of "asking s"] assms(2) demo_step [OF r1] by (simp add: asking_def)
qed

lemma demo3:
  "\<exists>s. at_rest (demo_client\<lparr>subscribed := insert ''news'' (control_channels demo_client)\<rparr>) s"
proof -
  let ?k = "demo_client\<lparr>subscribed := control_channels demo_client\<rparr>"
  obtain s where s: "at_rest ?k s" using demo2 by blast
  let ?h = "addSubscription demo_m 0 ''news'' (g_hub s)"
  have "handleClientSubscribe demo_m demo_sub (g_hub s) = Inr ?h"
    using s sample_valid by (simp add: handleClientSubscribe_cases Let_def demo_client_fresh at_rest_def)
  then have "demo_reaches ((asking s)\<lparr>g_hub := ?h\<rparr>)"
    using s by (intro demo_asks(2)) (simp_all add: at_rest_def idle_def)
  then have "at_rest (?k\<lparr>subscribed := insert ''news'' (control_channels demo_client)\<rparr>) ((asking s)\<lparr>g_hub := ?h\<rparr>)"
    using s by (auto simp: at_rest_def idle_def asking_def)
  then show ?thesis by auto
qed

text \<open>
  The same frame, taken before the hub has served the registration: the hub drops the request, and the
  client, registered afterwards, is not on the channel and is told nothing.
\<close>

lemma demo_lost:
  "\<exists>s. at_rest (demo_client\<lparr>subscribed := control_channels demo_client\<rparr>) s \<and>
     PostSubscribe demo_sub \<in> set (wire s 0) \<and> written (wire s 0) = []"
proof -
  have q: "subscribe (g_hub demo1) = make_chan 32" using demo0_simps(6) by (simp add: idle_def demo1_def Let_def)
  let ?s = "(asking demo1)\<lparr>g_hub := g_hub demo1\<rparr>"
  have "handleClientSubscribe demo_m demo_sub (g_hub demo1) = Inr (g_hub demo1)"
    by (simp add: handleClientSubscribe_def)
  with q demo1_reached have "demo_reaches ?s" by (intro demo_asks(2)) simp_all
  then have "demo_reaches (?s\<lparr>g_hub := registered demo_m 0 ((g_hub ?s)\<lparr>register := make_chan 8\<rparr>)\<rparr>)" (is "demo_reaches ?t")
    by (rule demo_registers) (simp_all add: asking_def)
  moreover have "idle (g_hub ?t)" using demo0_simps(6) by (simp add: idle_def demo1_def Let_def)
  ultimately have "at_rest (demo_client\<lparr>subscribed := control_channels demo_client\<rparr>) ?t"
    by (simp add: at_rest_def demo_client_fresh asking_def)
  moreover have "PostSubscribe demo_sub \<in> set (wire ?t 0)" "written (wire ?t 0) = []"
    by (simp_all add: asking_def demo1_def Let_def)
  ultimately show ?thesis by blast
qed

text \<open>A message on the channel is published, delivered and written.\<close>

abbreviation "demo_runs \<equiv> (gw_next_state demo_m demo_a)^**"

abbreviation "demo_subscriber \<equiv> demo_client\<lparr>subscribed := insert ''news'' (control_channels demo_client)\<rparr>"

text \<open>The state once the hub has been handed a message.\<close>

definition handed :: "incomingMessage \<Rightarrow> 'm gateway \<Rightarrow> 'm gateway" where
  "handed m s = s\<lparr>g_hub := (g_hub s)\<lparr>incoming := offer m (incoming (g_hub s))\<rparr>,
     published := published s @ [m]\<rparr>"

lemma handed_simps [simp]:
  "buf (incoming (g_hub (handed m s))) = buf (offer m (incoming (g_hub s)))"
  "heap (g_hub (handed m s)) = heap (g_hub s)" "clients (g_hub (handed m s)) = clients (g_hub s)"
  "hub_cfg (g_hub (handed m s)) = hub_cfg (g_hub s)"
  "g_next (handed m s) = g_next s" "writing (handed m s) = writing s"
  "wire (handed m s) = wire s" "hub_live (handed m s) = hub_live s"
  "manager (g_hub (handed m s)) = manager (g_hub s)" "published (handed m s) = published s @ [m]"
  by (simp_all add: handed_def)

lemma gw_next_handed:
  assumes "gw_next_state mgr a s s'"
  shows "published s' = published s \<or> (\<exists>m. has_room (incoming (g_hub s)) \<and> s' = handed m s)"
  using assms unfolding gw_next_state_def
  by cases (auto simp: handed_def go_bind_eq_Inr dest!: sym [of "Inr s'"])

lemma message_handed:
  "gw_step mgr a s (Inr s') \<Longrightarrow> published s' = published s @ [m] \<Longrightarrow> s' = handed m s"
  using gw_next_handed [of mgr a s s'] by (auto simp: gw_next_state_def)

lemma gw_run_published:
  "(gw_next_state mgr a)^** s s' \<Longrightarrow> prefix (published s) (published s')"
  by (induction rule: rtranclp_induct) (fastforce simp: handed_def dest: gw_next_handed)+

lemma at_rest_members:
  assumes "at_rest k s"
  shows "members (g_hub s) ch = (if ch \<in> subscribed k then {0} else {})"
    and "entry (channels (g_hub s) ch) = members (g_hub s) ch"
    and "hub_inv (g_hub s)"
proof -
  show inv: "hub_inv (g_hub s)" using assms reaches_hub_inv by (auto simp: at_rest_def)
  show "entry (channels (g_hub s) ch) = members (g_hub s) ch" by (simp add: hub_inv_members [OF inv])
  have "c \<in> members (g_hub s) ch \<longleftrightarrow> c = 0 \<and> ch \<in> subscribed k" for c
    using assms by (cases "c = 0") (auto simp: at_rest_def members_def)
  then show "members (g_hub s) ch = (if ch \<in> subscribed k then {0} else {})" by auto
qed

lemma at_rest_manager:
  assumes s: "at_rest k s"
  shows "deliver (manager (g_hub s)) = Some ()" "read_loops (manager (g_hub s)) = 1"
    and "ch \<in> subscribed k \<Longrightarrow> ch \<in> asked_for (issued (manager (g_hub s)))"
proof -
  have r: "demo_reaches s" using s by (simp add: at_rest_def)
  show "deliver (manager (g_hub s)) = Some ()"
    by (rule reaches_manager [OF r, where P = "\<lambda>m. deliver m = Some ()"]) simp_all
  show "read_loops (manager (g_hub s)) = 1"
    by (rule reaches_manager [OF r, where P = "\<lambda>m. read_loops m = 1"]) simp_all
  have ff: "fault_free (issued (manager (g_hub s)))"
  proof (rule reaches_manager [OF r, where P = "\<lambda>m. fault_free (issued m)"])
    fix ch and m :: "unit redisSubscriber"
    assume "fault_free (issued m)"
    from rs_step_fault_free [OF this, of "DoSubscribe ch"] rs_step_fault_free [OF this, of "DoUnsubscribe ch"]
    show "fault_free (issued (fst (Subscribe (redisManager no_faults) ch m)))"
      "fault_free (issued (fst (Unsubscribe (redisManager no_faults) ch m)))"
      by (simp_all add: redisManager_def)
  qed simp
  assume "ch \<in> subscribed k"
  then have "ch \<in> dom (channels (g_hub s))"
    using at_rest_members(1,2) [OF s, of ch] by (cases "channels (g_hub s) ch") auto
  moreover have "redis_sync rs_held rs_single rs_faulty (g_hub s)" using reaches_inv [OF r] by (simp add: redis_gw_inv_def)
  ultimately have "ch \<in> live (issued (manager (g_hub s)))"
    using ff by (auto simp: redis_sync_def rs_single_def rs_inv_def rs_faulty_def)
  then show "ch \<in> asked_for (issued (manager (g_hub s)))" using live_asked by blast
qed

lemma demo_publish:
  assumes s: "at_rest k s" and "ranges ord (entry (channels (g_hub s) (Channel m)))"
    and "handleIncoming ord m (g_hub s) = Inr h2"
  shows "gw_next_state demo_m demo_a s (handed m s)"
    and "gw_next_state demo_m demo_a (handed m s) ((handed m s)\<lparr>g_hub := h2\<rparr>)"
proof -
  have q: "incoming (g_hub s) = make_chan 256" "hub_live s" using s by (simp_all add: at_rest_def idle_def)
  then have "has_room (incoming (g_hub s))" by (simp add: has_room_def)
  from gw_message [OF refl this, of demo_m demo_a m]
  show "gw_next_state demo_m demo_a s (handed m s)" by (simp add: gw_next_state_def handed_def)
  let ?h = "g_hub (handed m s)"
  have "recv_chan (incoming ?h) = Received m (make_chan 256)"
    by (simp add: handed_def q(1) recv_chan_def offer_def has_room_def make_chan_def)
  moreover have "ranges ord (entry (channels ?h (Channel m)))" using assms(2) by (simp add: handed_def)
  moreover have "?h\<lparr>incoming := make_chan 256\<rparr> = g_hub s" by (simp add: handed_def q(1) [symmetric])
  ultimately have "run_step demo_m ?h (Inr h2)" using run_incoming [of ?h m "make_chan 256" ord demo_m] assms(3) by simp
  then show "gw_next_state demo_m demo_a (handed m s) ((handed m s)\<lparr>g_hub := h2\<rparr>)"
    using q(2) by (intro step_hub) simp_all
qed

abbreviation "demo_news \<equiv> \<lparr>Channel = ''news'', Payload = ''hi''\<rparr>"

lemma demo_message:
  assumes s: "at_rest demo_subscriber s"
  shows "\<exists>s'. demo_runs (handed demo_news s) s' \<and> published s' = [demo_news] \<and> hub_live s' \<and> g_next s' = 1 \<and>
    ''hi'' \<in> set (written (wire s' 0))"
proof -
  let ?m = demo_news and ?h = "g_hub s"
  have mem: "members ?h ''news'' = {0}" using at_rest_members(1) [OF s] by simp
  then have o: "ranges [0] (entry (channels ?h (Channel ?m)))" by (simp add: ranges_def at_rest_members(2) [OF s])
  have k: "heap ?h 0 = demo_subscriber" "0 \<in> writing s" "g_next s = 1" "hub_live s" "published s = []"
    using s by (simp_all add: at_rest_def)
  obtain h2 where h2: "handleIncoming [0] ?m ?h = Inr h2" "heap h2 0 = delivered ''hi'' demo_subscriber"
    using mem k(1) by (auto simp: handleIncoming_cases [OF at_rest_members(3) [OF s] o] is_control_def)
  let ?s2 = "(handed ?m s)\<lparr>g_hub := h2\<rparr>"
  have r2: "demo_runs (handed ?m s) ?s2" using demo_publish(2) [OF s o h2(1)] by simp
  have "send (heap h2 0) = offer ''hi'' (make_chan 64)"
    by (simp add: h2(2) delivered_def has_room_def demo_client_queues)
  then obtain k' where wr: "wp_recv (WpPayload ''hi'' None) (heap (g_hub ?s2) 0) = Some k'"
    by (simp add: wp_recv_def recv_chan_def offer_def has_room_def make_chan_def)
  have ws: "write_step (hub_cfg (g_hub ?s2)) (connectionID (heap (g_hub ?s2) 0)) (WpPayload ''hi'' None) =
      ([ConnWrite ''hi''], True)"
    by (simp add: write_step_def)
  have w: "0 \<in> writing ?s2" using k(2) by simp
  let ?s3 = "?s2\<lparr>g_hub := (g_hub ?s2)\<lparr>heap := (heap (g_hub ?s2))(0 := k')\<rparr>,
      writing := writing ?s2, wire := (wire ?s2)(0 := wire ?s2 0 @ [ConnWrite ''hi''])\<rparr>"
  have "gw_next_state demo_m demo_a ?s2 ?s3"
    using gw_write [OF refl w wr ws, of demo_m demo_a] unfolding gw_next_state_def if_True .
  with r2 have "demo_runs (handed ?m s) ?s3" by (rule rtranclp.rtrancl_into_rtrancl)
  moreover have "published ?s3 = [?m]" "hub_live ?s3" "g_next ?s3 = 1" using k(3-5) by (simp_all add: handed_def)
  moreover have "''hi'' \<in> set (written (wire ?s3 0))" by simp
  ultimately show ?thesis by (intro exI [of _ ?s3] conjI)
qed

text \<open>
  The peer is gone at once: the unregister request overtakes the registration.
\<close>

lemma demo_ghost:
  "\<exists>s. demo_reaches s \<and> idle (g_hub s) \<and> clients (g_hub s) = {0} \<and>
     reading s = {} \<and> exiting s = {} \<and> writing s = {}"
proof -
  let ?h = "g_hub demo1"
  let ?es = "[StartRead (PongTimeout sample_config), PumpLog (log_entry LevelDebug ''read pump exit''
    [(''connection_id'', LString (connectionID demo_client)), (''err'', LError (ErrorString ''EOF''))])]"
  let ?s1 = "demo1\<lparr>reading := {}, exiting := {0}, wire := (wire demo1)(0 := wire demo1 0 @ ?es)\<rparr>"
  have rs: "read_step (hub_cfg ?h) 0 (connectionID (heap ?h 0)) (False, ReadFailed (ErrorString ''EOF'')) = (?es, False)"
    by (simp add: read_step_def)
  have ps: "posts ?es ?h = Some ?h" by simp
  have "gw_next_state demo_m demo_a demo1 ?s1"
    using gw_read [OF refl _ rs ps, of demo_m demo_a] by (simp add: gw_next_state_def)
  with demo1_reached have r1: "demo_reaches ?s1" by (rule demo_step)
  let ?es2 = "[CloseNow, PostUnregister 0]"
  let ?h2 = "?h\<lparr>unregister := offer 0 (unregister ?h)\<rparr>"
  let ?s2 = "?s1\<lparr>g_hub := ?h2, exiting := {}, wire := (wire ?s1)(0 := wire ?s1 0 @ ?es2)\<rparr>"
  have un: "unregister ?h = make_chan 8" using demo0_simps(6) by (simp add: idle_def demo1_def Let_def)
  have "posts ?es2 (g_hub ?s1) = Some ?h2" by (simp add: un has_room_def)
  from gw_exit [OF _ refl this, of demo_m demo_a] have "gw_next_state demo_m demo_a ?s1 ?s2"
    by (simp add: gw_next_state_def)
  with r1 have r2: "demo_reaches ?s2" by (rule demo_step)
  let ?s3 = "?s2\<lparr>g_hub := ?h2\<lparr>heap := (heap ?h2)(0 := demo_client)\<rparr>, writing := {},
    wire := (wire ?s2)(0 := wire ?s2 0 @ [ConnClose StatusGoingAway ''shutdown''])\<rparr>"
  have "wp_recv WpCtxDone (heap (g_hub ?s2) 0) = Some demo_client" by (simp add: wp_recv_def)
  moreover have "write_step (hub_cfg (g_hub ?s2)) (connectionID (heap (g_hub ?s2) 0)) WpCtxDone =
      ([ConnClose StatusGoingAway ''shutdown''], False)" by (simp add: write_step_def)
  ultimately have "gw_next_state demo_m demo_a ?s2 ?s3"
    using gw_write [of "g_hub ?s2" ?s2 0 WpCtxDone demo_client "[ConnClose StatusGoingAway ''shutdown'']" False demo_m demo_a]
    by (simp add: gw_next_state_def)
  with r2 have r3: "demo_reaches ?s3" by (rule demo_step)
  let ?h4 = "(g_hub ?s3)\<lparr>unregister := make_chan 8\<rparr>"
  have "recv_chan (unregister (g_hub ?s3)) = Received 0 (make_chan 8)"
    by (simp add: un recv_chan_def offer_def has_room_def make_chan_def)
  from run_unregister [OF this, of "[]" demo_m]
  have "run_step demo_m (g_hub ?s3) (Inr ?h4)"
    by (simp add: demo_client_fresh ranges_def handleUnregister_def)
  then have "gw_next_state demo_m demo_a ?s3 (?s3\<lparr>g_hub := ?h4\<rparr>)" by (intro step_hub) simp_all
  with r3 have r4: "demo_reaches (?s3\<lparr>g_hub := ?h4\<rparr>)" by (rule demo_step)
  let ?s5 = "?s3\<lparr>g_hub := registered demo_m 0 (?h4\<lparr>register := make_chan 8\<rparr>)\<rparr>"
  have "demo_reaches ?s5" using demo_registers [OF r4] by simp
  moreover have "idle (registered demo_m 0 (?h4\<lparr>register := make_chan 8\<rparr>))"
    using demo0_simps(6) by (simp add: idle_def demo1_def Let_def)
  then have "idle (g_hub ?s5) \<and> clients (g_hub ?s5) = {0} \<and> reading ?s5 = {} \<and> exiting ?s5 = {} \<and> writing ?s5 = {}"
    by simp
  ultimately show ?thesis by blast
qed

end
