(* ===== verification/GatewayProps.thy ===== *)
theory GatewayProps
  imports GatewayRun
begin

text \<open>
  The properties of the process: the upgrade handler, start-up, and what holds in every state
  the process can reach from the one \<open>main\<close> sets up, whatever the network, the peers, the
  clock and the scheduler do.
\<close>

section \<open>The upgrade handler\<close>

text \<open>
  The handler upgrades a request only if its Origin is empty or on the allow-list, it
  carries a non-empty session cookie, and Django says that session is authenticated; the
  client it registers then has the user and the channels of Django's answer, and the session
  of the cookie.
\<close>

theorem wsHandler_upgrades:
  assumes "wsHandler cfg (Validate newRequest roundTrip a) accept r = (l, Upgraded res)"
    and "ws_client nano now res k = (k', c)"
  shows "(rq_Origin r = [] \<or> rq_Origin r \<in> set (AllowedOrigins cfg)) \<and>
    rq_sessionid r = Some (sessionKey c) \<and> sessionKey c \<noteq> [] \<and>
    (\<exists>resp body p. roundTrip (auth_request a (sessionKey c)) = Inr resp \<and>
       read_limited resp = Inr body \<and> parse_auth body = Some p \<and> Authenticated p \<and>
       userID c = resp_UserID p \<and> allowedChannels c = set (slice_elems (resp_AllowedChannels p)))"
proof -
  note up = django.ws_upgraded [OF assms(1)] and cl = ws_client_fresh [OF assms(2)]
  then have "Validate newRequest roundTrip a (sessionKey c) = (l, Inr res)" by simp
  then obtain resp body p where r: "roundTrip (auth_request a (sessionKey c)) = Inr resp"
    "read_limited resp = Inr body" "parse_auth body = Some p" "Authenticated p"
    "res = \<lparr>ar_UserID = resp_UserID p, ar_Username = resp_Username p,
       ar_AllowedChannels = slice_elems (resp_AllowedChannels p), ar_SessionKey = sessionKey c\<rparr>"
    by (auto simp: Validate_def check_response_accepts split: option.splits sum.splits)
  have "userID c = resp_UserID p \<and> allowedChannels c = set (slice_elems (resp_AllowedChannels p))"
    using cl(4,6) by (simp add: r(5))
  with r(1-4) up cl(5) show ?thesis by auto
qed

theorem wsHandler_upgrades_witness:
  "sessionKey (snd (ws_client 1 2 sample_result newCounter)) = ''k1''"
proof -
  obtain k c where c: "ws_client 1 2 sample_result newCounter = (k, c)"
    by (cases "ws_client 1 2 sample_result newCounter")
  from wsHandler_upgrades [OF sample_upgrade c] c show ?thesis by (simp add: sample_request_def)
qed

text \<open>
  The pattern made from an allowed origin is what follows its first "://", or the origin
  itself if it has none.
\<close>

theorem originPatternsFor_hosts:
  "length (originPatternsFor origins) = length origins \<and>
   (\<forall>i < length origins.
      (\<exists>pre. origins ! i = pre @ ''://'' @ originPatternsFor origins ! i \<and>
         (\<forall>j < length pre. \<not> has_prefix ''://'' (drop j (origins ! i)))) \<or>
      originPatternsFor origins ! i = origins ! i \<and>
         (\<forall>j. \<not> has_prefix ''://'' (drop j (origins ! i))))"
proof -
  let ?pat = "\<lambda>w. case Index ''://'' w of Some i \<Rightarrow> drop (i + 3) w | None \<Rightarrow> w"
  have "(\<exists>pre. w = pre @ ''://'' @ ?pat w \<and> (\<forall>j < length pre. \<not> has_prefix ''://'' (drop j w))) \<or>
      ?pat w = w \<and> (\<forall>j. \<not> has_prefix ''://'' (drop j w))" for w
  proof (cases "Index ''://'' w")
    case None
    then show ?thesis using Index_None by auto
  next
    case (Some i)
    then obtain t where t: "drop i w = ''://'' @ t"
      using Index_Some has_prefix_append by blast
    then have "drop (i + 3) w = t" by (metis add.commute append_eq_conv_conj drop_drop length_Cons list.size(3) numeral_3_eq_3)
    moreover have "w = take i w @ ''://'' @ t" using t by (metis append_take_drop_id)
    moreover have "\<forall>j < length (take i w). \<not> has_prefix ''://'' (drop j w)"
      using Index_first [OF Some] by auto
    ultimately show ?thesis using Some by auto
  qed
  then show ?thesis by (simp add: originPatternsFor_def)
qed

theorem originPatternsFor_hosts_witness:
  "length (originPatternsFor [''https://a.example'']) = 1"
  using originPatternsFor_hosts [of "[''https://a.example'']"] by simp

section \<open>Start-up\<close>

text \<open>
  The process starts exactly when the configuration loads and the Redis URL parses; it
  then runs one Redis read loop with the hub's callback attached, has issued no Redis command
  and has no client, channel or user entry.
\<close>

theorem main_start_result:
  "(\<forall>e. main_start env parseURL = Inl (FatalConfig e) \<longleftrightarrow> Load env = Inl e) \<and>
   (\<forall>e. main_start env parseURL = Inl (FatalRedis e) \<longleftrightarrow>
      (\<exists>cfg cause. Load env = Inr cfg \<and> parseURL (RedisURL cfg) = Some cause \<and>
         e = Prefixed ''parse REDIS_URL'' cause)) \<and>
   (\<forall>cfg a h. main_start env parseURL = Inr (cfg, a, h) \<longrightarrow>
      Load env = Inr cfg \<and> a = NewAuthenticator cfg \<and> 0 < auth_timeout a \<and>
      hub_cfg h = cfg \<and> clients h = {} \<and> channels h = Map.empty \<and> userClients h = Map.empty \<and>
      deliver (manager h) = Some () \<and> read_loops (manager h) = 1 \<and> issued (manager h) = [])"
proof (intro conjI allI impI)
  fix cfg a h
  assume m: "main_start env parseURL = Inr (cfg, a, h)"
  note h = main_start_Inr [OF m]
  show "Load env = Inr cfg" "a = NewAuthenticator cfg" by (rule h)+
  show "0 < auth_timeout a" by (simp add: h(2) NewAuthenticator_def Let_def Second_def)
  show "hub_cfg h = cfg" "clients h = {}" "channels h = Map.empty" "userClients h = Map.empty"
    "deliver (manager h) = Some ()" "read_loops (manager h) = 1" "issued (manager h) = []"
    by (simp_all add: h(3) NewHub_def)
qed (auto simp: main_start_def NewRedisSubscriber_def Let_def split: sum.split option.split)

theorem main_start_result_witness:
  "\<exists>a h. main_start sample_env (\<lambda>_. None) = Inr (sample_config, a, h) \<and> clients h = {} \<and>
     issued (manager h) = []"
proof -
  note r = main_start_result [THEN conjunct2, THEN conjunct2, THEN spec, THEN spec, THEN spec, THEN mp, OF sample_main]
  show ?thesis by (intro exI conjI, rule sample_main) (use r in simp_all)
qed

text \<open>
  A ping interval of zero loads without an error, and the write pump of any connection
  then panics, which ends the process.
\<close>

theorem zero_ping_interval_panics:
  "\<exists>cfg. Load (sample_env(''PING_INTERVAL'' := ''0'')) = Inr cfg \<and>
     WritePump cfg cn css = Inl NonPositiveTicker"
proof -
  let ?env = "sample_env(''PING_INTERVAL'' := ''0'')"
  have "ParseDuration ''0'' = Inr 0" by (simp add: ParseDuration_def)
  then have "load_optional ?env c = Inr (c\<lparr>PingInterval := 0\<rparr>)" for c
    by (simp add: load_optional_def parseIntInto_def parseInt64Into_def parseDurationInto_def
        parseLogLevelInto_def sample_env_def)
  then have "\<exists>cfg. Load ?env = Inr cfg \<and> PingInterval cfg = 0"
    by (simp add: Load_checks sample_env_def minSecretLength_def parse_origins_sample)
  then show ?thesis by (auto simp: WritePump_def NewTicker_def)
qed

section \<open>Every reachable state\<close>

text \<open>
  The process reaches, with the default configuration, a state in which a client is
  registered and counted although its connection is closed, both its pumps have ended and
  nothing is queued that would unregister it.
\<close>

theorem ghost_client_reachable:
  "\<exists>s. reaches sample_env (\<lambda>_. None) no_faults sample_config s \<and> clients (g_hub s) = {0} \<and>
     reading s = {} \<and> exiting s = {} \<and> writing s = {} \<and> spawned (g_hub s) = [] \<and>
     buf (register (g_hub s)) = [] \<and> buf (unregister (g_hub s)) = []"
  using demo_ghost by (auto simp: idle_def)

text \<open>
  The process reaches, with the default configuration, a state in which a registered client has
  asked for a channel it may have, nothing is queued any more, and it is neither on the channel nor
  has it been written an error: the hub takes the request before the registration and drops it.
\<close>

theorem subscription_lost_reachable:
  "\<exists>s. reaches sample_env (\<lambda>_. None) no_faults sample_config s \<and> clients (g_hub s) = {0} \<and>
     PostSubscribe \<lparr>sub_client = 0, sub_channel = ''news''\<rparr> \<in> set (wire s 0) \<and>
     ''news'' \<in> allowedChannels (heap (g_hub s) 0) \<and> ''news'' \<notin> subscribed (heap (g_hub s) 0) \<and>
     buf (subscribe (g_hub s)) = [] \<and> written (wire s 0) = [] \<and> buf (send (heap (g_hub s) 0)) = []"
proof -
  obtain s where "at_rest (demo_client\<lparr>subscribed := control_channels demo_client\<rparr>) s"
    "PostSubscribe demo_sub \<in> set (wire s 0)" "written (wire s 0) = []"
    using demo_lost by blast
  then show ?thesis
    by (intro exI [of _ s])
       (simp add: at_rest_def idle_def demo_client_fresh control_channels_def session_channel_def user_channel_def)
qed

end
