(* ===== verification/GatewayOrder.thy ===== *)
theory GatewayOrder
  imports GatewayRun
begin

text \<open>
  Order and signals over whole runs. What a client is sent is a stream, the payloads already
  written to its connection followed by those queued: it only ever grows at its end, and the
  messages in it come in the order in which they were published. A disconnect signal, once
  queued, stays until the write pump ends, after which nothing more is written.
\<close>

section \<open>The stream of a client\<close>

definition stream_of :: "'m gateway \<Rightarrow> cid \<Rightarrow> bytes list" where
  "stream_of s c = written (wire s c) @ buf (send (heap (g_hub s) c))"

definition granted :: "client \<Rightarrow> incomingMessage \<Rightarrow> bool" where
  "granted k m \<longleftrightarrow> Channel m \<in> allowedChannels k \<and> valid_channel (Channel m)"

text \<open>The error frames of the hub mixed into messages granted to the client, each in order.\<close>

definition in_order :: "client \<Rightarrow> incomingMessage list \<Rightarrow> bytes list \<Rightarrow> bool" where
  "in_order k ms st \<longleftrightarrow> (\<exists>xs es. st \<in> shuffles xs es \<and> subseq xs (map Payload (filter (granted k) ms)) \<and>
     list_all is_error_frame es)"

lemma shuffles_singleton: "ys @ [z] \<in> shuffles [z] ys"
  by (induction ys) auto

lemma shuffles_snoc:
  "zs \<in> shuffles xs ys \<Longrightarrow> zs @ [z] \<in> shuffles (xs @ [z]) ys"
  "zs \<in> shuffles xs ys \<Longrightarrow> zs @ [z] \<in> shuffles xs (ys @ [z])"
  using shuffles_singleton [of _ z] shuffles_commutes [of "[z]"]
  by (induction xs ys arbitrary: zs rule: shuffles.induct) auto

lemma in_order_Nil [simp]: "in_order k ms []"
  by (auto simp: in_order_def)

lemma subseq_append_right: "subseq xs ys \<Longrightarrow> subseq xs (ys @ zs)"
  using list_emb_append_mono [of "(=)" xs ys "[]" zs] by simp

lemma in_order_more: "in_order k ms st \<Longrightarrow> in_order k (ms @ [m]) st"
  unfolding in_order_def using subseq_append_right by fastforce

lemma in_order_error: "in_order k ms st \<Longrightarrow> is_error_frame p \<Longrightarrow> in_order k ms (st @ [p])"
  unfolding in_order_def
  by (elim exE conjE, rule exI, rule exI, rule conjI, erule shuffles_snoc(2)) simp

lemma in_order_message: "in_order k ms st \<Longrightarrow> grants m k p \<Longrightarrow> in_order k (ms @ [m]) (st @ [p])"
proof -
  assume "grants m k p"
  then have m: "granted k m" "p = Payload m" by (simp_all add: grants_def granted_def)
  assume "in_order k ms st"
  then obtain xs es where x: "st \<in> shuffles xs es" "subseq xs (map Payload (filter (granted k) ms))"
    "list_all is_error_frame es"
    by (auto simp: in_order_def)
  from shuffles_snoc(1) [OF x(1), of p] x(2,3) m show ?thesis
    unfolding in_order_def by (intro exI [of _ "xs @ [p]"] exI [of _ es]) (simp add: list_emb_append_mono)
qed

lemma in_order_same_id: "same_id k k' \<Longrightarrow> in_order k' ms st = in_order k ms st"
proof -
  assume "same_id k k'"
  then have "granted k' = granted k" by (simp add: fun_eq_iff granted_def same_id_def)
  then show ?thesis by (simp add: in_order_def)
qed
section \<open>Steps and streams\<close>

text \<open>
  What a step does to the streams: clients stay who they are, a new one has an empty stream,
  and either nothing is handled and streams grow by error frames, or the next published message
  is handled and they grow by its payload where it is granted.
\<close>

definition to_handle :: "'m gateway \<Rightarrow> incomingMessage list" where
  "to_handle s = buf (incoming (g_hub s))"

definition stream_grows :: "(client \<Rightarrow> bytes \<Rightarrow> bool) \<Rightarrow> 'm gateway \<Rightarrow> 'm gateway \<Rightarrow> bool" where
  "stream_grows J s s' \<longleftrightarrow> g_next s \<le> g_next s' \<and>
     (\<forall>c. g_next s \<le> c \<and> c < g_next s' \<longrightarrow> stream_of s' c = []) \<and>
     (\<forall>c < g_next s. same_id (heap (g_hub s) c) (heap (g_hub s') c) \<and>
        (stream_of s' c = stream_of s c \<or>
         (\<exists>p. stream_of s' c = stream_of s c @ [p] \<and> J (heap (g_hub s) c) p)))"

definition stream_step :: "'m gateway \<Rightarrow> 'm gateway \<Rightarrow> bool" where
  "stream_step s s' \<longleftrightarrow>
     (\<exists>ms. published s' = published s @ ms \<and> to_handle s' = to_handle s @ ms \<and>
        stream_grows (\<lambda>_. is_error_frame) s s') \<or>
     (\<exists>m. published s' = published s \<and> to_handle s = m # to_handle s' \<and> stream_grows (grants m) s s')"

lemma stream_quiet:
  assumes "g_next s' = g_next s" and "published s' = published s @ ms" and "to_handle s' = to_handle s @ ms"
    and "\<And>c. c < g_next s \<Longrightarrow> same_id (heap (g_hub s) c) (heap (g_hub s') c) \<and> stream_of s' c = stream_of s c"
  shows "stream_step s s'"
  using assms by (auto simp: stream_step_def stream_grows_def)

lemma stream_grows_serves:
  "grows J (g_hub s) h' \<Longrightarrow> stream_grows J s (s\<lparr>g_hub := h'\<rparr>)"
  by (auto simp: stream_grows_def grows_def queued_more_def stream_of_def)

lemma gw_step_stream:
  assumes step: "gw_step mgr a s (Inr s')" and inv: "gw_inv cfg s"
  shows "stream_step s s'"
  using step
proof cases
  case (gw_connect h c newRequest roundTrip accept rq l res nano now k cl)
  have s': "s' = s\<lparr>g_hub := h\<lparr>register := offer c (register h), heap := (heap h)(c := cl)\<rparr>,
      g_ctr := k, g_next := Suc c, reading := insert c (reading s), writing := insert c (writing s),
      wire := (wire s)(c := [SetReadLimit (MaxMessageSize (hub_cfg h))]),
      handshake := (handshake s)(c := answered roundTrip a rq)\<rparr>"
    using gw_connect(1) by (auto simp: go_bind_eq_Inr dest!: sym [of "Inr s'"])
  then show ?thesis
    using gw_connect(2,3) ws_client_fresh(3) [OF gw_connect(5)]
    by (auto simp: stream_step_def stream_grows_def stream_of_def to_handle_def less_Suc_eq_le intro!: exI [of _ "[]"])
next
  case (gw_read h c inp es go_on h')
  then show ?thesis
    using posts_frame [OF gw_read(5)] read_step_written [OF gw_read(4)]
    by (intro stream_quiet [of _ _ "[]"]) (auto simp: stream_of_def to_handle_def)
next
  case (gw_exit c es h')
  then show ?thesis
    using posts_frame [OF gw_exit(4)]
    by (intro stream_quiet [of _ _ "[]"]) (auto simp: stream_of_def to_handle_def)
next
  case (gw_spawned h c)
  then show ?thesis
    by (intro stream_quiet [of _ _ "[]"]) (auto simp: stream_of_def to_handle_def)
next
  case (gw_write h c cs k es go_on)
  have "same_id (heap h c) k" using wp_recv_same [OF gw_write(4)] by (simp add: same_client_def same_id_def)
  moreover have "written es @ buf (send k) = buf (send (heap h c))"
    using wp_recv_send [OF gw_write(4), of "hub_cfg h" "connectionID (heap h c)"] gw_write(5) by simp
  ultimately show ?thesis
    using gw_write by (intro stream_quiet [of _ _ "[]"]) (auto simp: stream_of_def to_handle_def)
next
  case (gw_message h m)
  then show ?thesis
    by (intro stream_quiet [of _ _ "[m]"]) (auto simp: stream_of_def to_handle_def buf_offer)
next
  case (gw_hub_turn q)
  have "run_inv (g_hub s)" using inv by (simp add: gw_inv_def)
  from run_step_turn [OF gw_hub_turn(3) this] gw_hub_turn(1) obtain h' where
    h': "serves (g_hub s) h'" "s' = s\<lparr>g_hub := h'\<rparr>"
    by (auto simp: go_ok_Inr turn_def)
  then show ?thesis
    using stream_grows_serves [of _ s h'] unfolding serves_def stream_step_def to_handle_def by auto
next
  case gw_cancel
  then show ?thesis by (intro stream_quiet [of _ _ "[]"]) (auto simp: stream_of_def to_handle_def)
qed

lemma stream_step_mono: "stream_step s s' \<Longrightarrow> c < g_next s \<Longrightarrow>
    c < g_next s' \<and> prefix (stream_of s c) (stream_of s' c)"
  by (auto simp: stream_step_def stream_grows_def)

text \<open>What has been handled is the rest of what was published.\<close>

definition order_inv :: "'m gateway \<Rightarrow> bool" where
  "order_inv s \<longleftrightarrow> (\<exists>ms. published s = ms @ to_handle s \<and>
     (\<forall>c < g_next s. in_order (heap (g_hub s) c) ms (stream_of s c)))"

lemma order_inv_step:
  assumes "order_inv s" and "stream_step s s'"
  shows "order_inv s'"
proof -
  obtain ms where ms: "published s = ms @ to_handle s"
    "\<And>c. c < g_next s \<Longrightarrow> in_order (heap (g_hub s) c) ms (stream_of s c)"
    using assms(1) by (auto simp: order_inv_def)
  from assms(2) consider
      (quiet) ns where "published s' = published s @ ns" "to_handle s' = to_handle s @ ns"
        "stream_grows (\<lambda>_. is_error_frame) s s'"
    | (msg) m where "published s' = published s" "to_handle s = m # to_handle s'" "stream_grows (grants m) s s'"
    unfolding stream_step_def by blast
  then show ?thesis
  proof cases
    case quiet
    have "in_order (heap (g_hub s') c) ms (stream_of s' c)" if "c < g_next s'" for c
      using that quiet(3) ms(2) [of c] in_order_same_id [of "heap (g_hub s) c" "heap (g_hub s') c"]
      by (cases "c < g_next s") (auto simp: stream_grows_def in_order_error)
    with quiet ms(1) show ?thesis by (auto simp: order_inv_def)
  next
    case msg
    have "in_order (heap (g_hub s') c) (ms @ [m]) (stream_of s' c)" if "c < g_next s'" for c
      using that msg(3) ms(2) [of c] in_order_same_id [of "heap (g_hub s) c" "heap (g_hub s') c"]
      by (cases "c < g_next s") (auto simp: stream_grows_def in_order_more in_order_message)
    with msg ms(1) show ?thesis by (auto simp: order_inv_def)
  qed
qed

interpretation ordered: invariant_system "\<lambda>s. \<exists>m hp. s = gw_start (NewHub cfg m hp)" "gw_next_state mgr a"
  "\<lambda>s. gw_inv cfg s \<and> order_inv s"
  for cfg mgr a
proof
  show "gw_inv cfg s \<and> order_inv s" if "\<exists>m hp. s = gw_start (NewHub cfg m hp)" for s :: "'a gateway"
    using that gw_inv_start by (auto simp: order_inv_def gw_start_def to_handle_def NewHub_def)
  show "gw_inv cfg s' \<and> order_inv s'" if "gw_inv cfg s \<and> order_inv s" "gw_next_state mgr a s s'" for s s'
    using that gw.step_inv [of cfg s mgr a s'] order_inv_step [of s s'] gw_step_stream [of mgr a s s' cfg]
    by (simp add: gw_next_state_def)
qed

section \<open>Order of delivery\<close>

lemma stream_in_order:
  assumes "order_inv s" and "c < g_next s"
  shows "\<exists>xs es. stream_of s c \<in> shuffles xs es \<and>
    subseq xs (map Payload (filter (granted (heap (g_hub s) c)) (published s))) \<and> (\<forall>e \<in> set es. is_error_frame e)"
proof -
  obtain ms where ms: "published s = ms @ to_handle s" "in_order (heap (g_hub s) c) ms (stream_of s c)"
    using assms by (auto simp: order_inv_def)
  then obtain xs es where x: "stream_of s c \<in> shuffles xs es"
    "subseq xs (map Payload (filter (granted (heap (g_hub s) c)) ms))" "list_all is_error_frame es"
    by (auto simp: in_order_def)
  moreover from x(2) have "subseq xs (map Payload (filter (granted (heap (g_hub s) c)) (published s)))"
    using subseq_append_right by (simp add: ms(1))
  ultimately show ?thesis by (auto simp: list_all_iff)
qed

end
