(* ===== verification/GatewayRevoke.thy ===== *)
theory GatewayRevoke
  imports GatewayOrder
begin

text \<open>
  Disconnect signals over whole runs: a signal queued for a client stays at the head of its
  queue until the write pump ends; the pump can take it at any time and then closes the
  connection with the signal's code; and once the pump has ended nothing more is written.
\<close>

section \<open>Signals stay\<close>

definition signalled :: "disconnectReason \<Rightarrow> 'm gateway \<Rightarrow> cid \<Rightarrow> bool" where
  "signalled d s c \<longleftrightarrow> c \<in> writing s \<and> (\<exists>ds. buf (disconnect (heap (g_hub s) c)) = d # ds)"

definition talk :: "'m gateway \<Rightarrow> cid \<Rightarrow> bytes list \<times> (int \<times> string) list" where
  "talk s c = (written (wire s c), closes (wire s c))"

lemma read_step_closes: "read_step cfg c cn inp = (es, go_on) \<Longrightarrow> closes es = []"
  by (auto simp: read_step_def frame_events_def split: prod.splits if_splits read_outcome.splits option.splits)

lemma wp_recv_disconnect:
  assumes "wp_recv cs k = Some k'" and "buf (disconnect k) = d # ds"
  shows "cs = WpDisconnect d \<or> disconnect k' = disconnect k"
  using assms
  by (auto simp: wp_recv_def recv_chan_def split: wp_case.splits recv.splits if_splits list.splits)

lemma write_step_disconnect: "\<not> snd (write_step cfg cn (WpDisconnect d))"
  by (simp add: write_step_def)

lemma signalled_step:
  assumes step: "gw_step mgr a s (Inr s')" and inv: "gw_inv cfg s" and c: "c < g_next s" and sig: "signalled d s c"
  shows "signalled d s' c \<or> c \<notin> writing s'"
  using step
proof cases
  case (gw_connect h c' newRequest roundTrip accept rq l res nano now k cl)
  then show ?thesis
    using sig c by (auto simp: signalled_def go_bind_eq_Inr dest!: sym [of "Inr s'"])
next
  case (gw_read h c' inp es go_on h')
  then show ?thesis using sig posts_frame [OF gw_read(5)] by (auto simp: signalled_def)
next
  case (gw_exit c' es h')
  then show ?thesis using sig posts_frame [OF gw_exit(4)] by (auto simp: signalled_def)
next
  case (gw_write h c' cs k es go_on)
  obtain ds where ds: "buf (disconnect (heap h c)) = d # ds" using sig gw_write(2) by (auto simp: signalled_def)
  show ?thesis
  proof (cases "c' = c")
    case True
    with wp_recv_disconnect [OF _ ds] gw_write(4) consider "cs = WpDisconnect d" | "disconnect k = disconnect (heap h c)"
      by blast
    then show ?thesis
      using gw_write True sig ds write_step_disconnect [of "hub_cfg h" "connectionID (heap h c')" d]
      by cases (auto simp: signalled_def)
  next
    case False
    with gw_write sig show ?thesis by (auto simp: signalled_def)
  qed
next
  case (gw_hub_turn q)
  have "run_inv (g_hub s)" using inv by (simp add: gw_inv_def)
  from run_step_turn [OF gw_hub_turn(3) this] gw_hub_turn(1) obtain h' where
    h': "serves (g_hub s) h'" "s' = s\<lparr>g_hub := h'\<rparr>"
    by (auto simp: go_ok_Inr turn_def)
  have "\<exists>ds. buf (disconnect (heap h' c)) = buf (disconnect (heap (g_hub s) c)) @ ds"
    using serves_queued [OF h'(1), of c] by (simp add: queued_more_def)
  then show ?thesis using sig h'(2) by (auto simp: signalled_def)
qed (use sig in \<open>auto simp: signalled_def\<close>)

lemma pump_over_step:
  assumes step: "gw_step mgr a s (Inr s')" and c: "c < g_next s" "c \<notin> writing s"
  shows "c < g_next s' \<and> c \<notin> writing s' \<and> talk s' c = talk s c"
  using step
proof cases
  case (gw_connect h c' newRequest roundTrip accept rq l res nano now k cl)
  then show ?thesis using c by (auto simp: talk_def go_bind_eq_Inr dest!: sym [of "Inr s'"])
next
  case (gw_read h c' inp es go_on h')
  then show ?thesis using c read_step_closes [OF gw_read(4)] read_step_written [OF gw_read(4)] by (auto simp: talk_def)
next
  case (gw_write h c' cs k es go_on)
  then have "c' \<noteq> c" using c(2) by auto
  with gw_write c show ?thesis by (auto simp: talk_def)
next
  case (gw_hub_turn q)
  then show ?thesis using c by (cases q) (auto simp: talk_def)
qed (use c in \<open>auto simp: talk_def\<close>)

text \<open>The pump can take the signal and close.\<close>

lemma signalled_closes:
  assumes "signalled d s c" and "Code d \<noteq> 0"
  shows "\<exists>s'. gw_next_state mgr a s s' \<and> c \<notin> writing s' \<and> hub_live s' = hub_live s \<and>
    published s' = published s \<and> wire s' c = wire s c @ [ConnClose (Code d) (Reason d)]"
proof -
  obtain ds where ds: "buf (disconnect (heap (g_hub s) c)) = d # ds" and c: "c \<in> writing s"
    using assms(1) by (auto simp: signalled_def)
  then obtain k where "wp_recv (WpDisconnect d) (heap (g_hub s) c) = Some k"
    by (simp add: wp_recv_def recv_chan_def)
  moreover have "write_step (hub_cfg (g_hub s)) (connectionID (heap (g_hub s) c)) (WpDisconnect d) =
      ([ConnClose (Code d) (Reason d)], False)"
    using assms(2) by (simp add: write_step_def)
  ultimately show ?thesis using gw_write [OF refl c, of "WpDisconnect d" k _ _ mgr a]
    by (fastforce simp: gw_next_state_def)
qed

section \<open>Revocation\<close>

text \<open>The step in which the hub handles a message.\<close>

definition handles :: "'m channelManager option \<Rightarrow> Authenticator \<Rightarrow> incomingMessage \<Rightarrow> 'm gateway \<Rightarrow> 'm gateway \<Rightarrow> bool" where
  "handles mgr a m s s' \<longleftrightarrow> gw_next_state mgr a s s' \<and> to_handle s = m # to_handle s'"

lemma run_step_incoming:
  assumes step: "run_step mgr h (Inr h')" and inv: "run_inv h" and q: "buf (incoming h) = m # buf (incoming h')"
  shows "\<exists>ch ord. ranges ord (entry (channels h (Channel m))) \<and> handleIncoming ord m (h\<lparr>incoming := ch\<rparr>) = Inr h'"
proof -
  note hi = run_inv_hub [OF inv]
  have no: False if "go_ok (effect (\<lambda>_ _. True) g) (Inr h')" "incoming g = incoming h" for g
  proof -
    have "incoming h' = incoming h" using that by (simp add: effect_def)
    then show False using arg_cong [OF q, of length] by simp
  qed
  have er: "go_ok (effect (\<lambda>_ _. True) g) r" if "go_ok (effect (\<lambda>_. is_error_frame) g) r" for g r
    using that by (auto simp: go_ok_Inr effect_def grows_def queued_more_def) blast
  show ?thesis
    using step
  proof cases
    case (run_register c ch)
    have "\<not> closed (disconnect (heap h c))"
      by (rule pending_open [OF inv run_register(2)])
    then have "go_ok (effect (\<lambda>_ _. True) (h\<lparr>register := ch\<rparr>)) (Inr h')"
      unfolding run_register(1) using hi by (intro effect_register) simp_all
    from no [OF this] show ?thesis by simp
  next
    case (run_unregister c ch ord)
    have "go_ok (effect (\<lambda>_ _. True) (h\<lparr>unregister := ch\<rparr>)) (Inr h')"
      unfolding run_unregister(1) using hi by (intro effect_unregister) simp
    from no [OF this] show ?thesis by simp
  next
    case (run_subscribe s ch)
    have "go_ok (effect (\<lambda>_ _. True) (h\<lparr>subscribe := ch\<rparr>)) (Inr h')"
      unfolding run_subscribe(1) using hi by (intro er effect_subscribe) simp
    from no [OF this] show ?thesis by simp
  next
    case (run_unsubscribe s ch)
    have "go_ok (effect (\<lambda>_ _. True) (h\<lparr>unsubscribe := ch\<rparr>)) (Inr h')"
      using effect_unsubscribe run_unsubscribe(1) by simp
    from no [OF this] show ?thesis by simp
  next
    case (run_incoming m' ch ord)
    moreover have "m' = m" using run_incoming(2) q by (simp add: recv_chan_Received)
    ultimately show ?thesis by auto
  qed
qed

lemma handles_hub:
  assumes "handles mgr a m s s'" and "gw_inv cfg s"
  shows "\<exists>ch ord h'. ranges ord (entry (channels (g_hub s) (Channel m))) \<and>
    handleIncoming ord m ((g_hub s)\<lparr>incoming := ch\<rparr>) = Inr h' \<and> s' = s\<lparr>g_hub := h'\<rparr>"
proof -
  have st: "gw_step mgr a s (Inr s')" and q: "buf (incoming (g_hub s)) = m # buf (incoming (g_hub s'))"
    using assms(1) by (simp_all add: handles_def gw_next_state_def to_handle_def)
  then have no: "incoming (g_hub s') \<noteq> incoming (g_hub s)" using arg_cong [OF q, of length] by auto
  from st show ?thesis
  proof cases
    case (gw_connect h c' newRequest roundTrip accept rq l res nano now k cl)
    then show ?thesis using no by (auto simp: go_bind_eq_Inr dest!: sym [of "Inr s'"])
  next
    case (gw_read h c' inp es go_on h')
    then show ?thesis using no posts_frame [OF gw_read(5)] by auto
  next
    case (gw_exit c' es h')
    then show ?thesis using no posts_frame [OF gw_exit(4)] by auto
  next
    case (gw_message h m')
    then have "length (buf (incoming (g_hub s))) < length (buf (incoming (g_hub s')))" by (simp add: buf_offer)
    then show ?thesis using q by simp
  next
    case (gw_hub_turn r)
    then obtain h' where h': "run_step mgr (g_hub s) (Inr h')" "s' = s\<lparr>g_hub := h'\<rparr>" by (cases r) auto
    have "run_inv (g_hub s)" using assms(2) by (simp add: gw_inv_def)
    from run_step_incoming [OF h'(1) this, of m] q h'(2) show ?thesis by auto
  qed (use no in auto)
qed

lemma revoked_signalled:
  assumes inv: "gw_inv cfg s" and c: "c \<in> clients (g_hub s)" "c \<in> writing s" and ch: "Channel m \<in> subscribed (heap (g_hub s) c)"
    and room: "0 < cap (disconnect (heap (g_hub s) c))"
    and m: "is_control (Channel m)" "revokes (Payload m)" and h: "handles mgr a m s s'"
  shows "\<exists>d. signalled d s' c \<and>
    (buf (disconnect (heap (g_hub s) c)) = [] \<longrightarrow> d = \<lparr>Code = 4401, Reason = ''session_revoked''\<rparr>)"
proof -
  have hi: "hub_inv (g_hub s)" using inv by (simp add: gw_inv_def run_inv_hub)
  obtain q ord h' where o: "ranges ord (entry (channels (g_hub s) (Channel m)))"
    "handleIncoming ord m ((g_hub s)\<lparr>incoming := q\<rparr>) = Inr h'" "s' = s\<lparr>g_hub := h'\<rparr>"
    using handles_hub [OF h inv] by blast
  have "c \<in> members ((g_hub s)\<lparr>incoming := q\<rparr>) (Channel m)" using c ch by (simp add: members_def)
  then have "heap h' c = signal 4401 ''session_revoked'' (heap (g_hub s) c)"
    using revoke_range [of "(g_hub s)\<lparr>incoming := q\<rparr>" ord m] hi o(1,2) m by simp
  moreover have "\<not> closed (disconnect (heap (g_hub s) c))"
    using hub_inv_client(1) [OF hi c(1)] by (simp add: open_client_def)
  ultimately show ?thesis
    using c(2) room
    by (cases "buf (disconnect (heap (g_hub s) c))")
       (auto simp: signalled_def o(3) signal_def buf_offer has_room_def)
qed

end
