(* ===== verification/GatewayAuth.thy ===== *)
theory GatewayAuth
  imports GatewayOrder
begin

text \<open>
  Who the clients are: every client the process has accepted was let in by a request below /ws/ with an
  acceptable Origin and by an answer of Django that says its session is authenticated, and
  keeps the user and the channels of that answer, and the session of that request, for life.
\<close>

text \<open>What a handshake must have been to let in a client.\<close>

definition lets_in :: "config \<Rightarrow> ws_request \<Rightarrow> http_response \<Rightarrow> client \<Rightarrow> bool" where
  "lets_in cfg r resp k \<longleftrightarrow>
     main_mux (req_Method r) (req_Path r) = ToWs \<and>
     (rq_Origin r = [] \<or> rq_Origin r \<in> set (AllowedOrigins cfg)) \<and>
     rq_sessionid r = Some (sessionKey k) \<and> sessionKey k \<noteq> [] \<and>
     200 \<le> rs_status resp \<and> rs_status resp < 500 \<and> rs_status resp \<noteq> 401 \<and>
     (\<exists>body p. read_limited resp = Inr body \<and> parse_auth body = Some p \<and> Authenticated p \<and>
        userID k = resp_UserID p \<and> allowedChannels k = set (slice_elems (resp_AllowedChannels p)))"

definition admitted :: "config \<Rightarrow> 'm gateway \<Rightarrow> cid \<Rightarrow> bool" where
  "admitted cfg s c \<longleftrightarrow> (\<exists>r resp. handshake s c = Some (r, resp) \<and> lets_in cfg r resp (heap (g_hub s) c))"

lemma lets_in_same_id: "same_id k k' \<Longrightarrow> lets_in cfg r resp k' = lets_in cfg r resp k"
  by (simp add: lets_in_def same_id_def)

lemma upgraded_lets_in:
  assumes "wsHandler cfg (Validate newRequest roundTrip a) accept r = (l, Upgraded res)"
    and "ws_client nano now res k = (k', c)" and "main_mux (req_Method r) (req_Path r) = ToWs"
  shows "\<exists>resp. answered roundTrip a r = Some (r, resp) \<and> lets_in cfg r resp c"
proof -
  note up = django.ws_upgraded [OF assms(1)] and cl = ws_client_fresh [OF assms(2)]
  then have v: "Validate newRequest roundTrip a (sessionKey c) = (l, Inr res)" "rq_sessionid r = Some (sessionKey c)"
    by simp_all
  then obtain resp where r: "roundTrip (auth_request a (sessionKey c)) = Inr resp"
    and ck: "check_response a (sessionKey c) resp = (l, Inr res)"
    by (auto simp: Validate_def split: option.splits sum.splits)
  from ck obtain body p where p: "read_limited resp = Inr body" "parse_auth body = Some p" "Authenticated p"
    "res = \<lparr>ar_UserID = resp_UserID p, ar_Username = resp_Username p,
       ar_AllowedChannels = slice_elems (resp_AllowedChannels p), ar_SessionKey = sessionKey c\<rparr>"
    and st: "200 \<le> rs_status resp" "rs_status resp < 500" "rs_status resp \<noteq> 401"
    by (auto simp: check_response_accepts)
  have "userID c = resp_UserID p" "allowedChannels c = set (slice_elems (resp_AllowedChannels p))"
    using cl(4,6) by (simp_all add: p(4))
  with p(1-3) st up cl(5) assms(3) have "lets_in cfg r resp c" by (auto simp: lets_in_def)
  with r v(2) show ?thesis by (simp add: answered_def)
qed

lemma handshake_kept:
  assumes "gw_step mgr a s (Inr s')" and "c < g_next s"
  shows "handshake s' c = handshake s c"
  using assms(1)
proof cases
  case (gw_connect h c' newRequest roundTrip accept rq l res nano now k cl)
  then show ?thesis using assms(2) by (auto simp: go_bind_eq_Inr dest!: sym [of "Inr s'"])
next
  case (gw_hub_turn q)
  then show ?thesis by (cases q) auto
qed simp_all

lemma admitted_new:
  assumes step: "gw_step mgr a s (Inr s')" and inv: "gw_inv cfg s" and c: "\<not> c < g_next s" "c < g_next s'"
  shows "admitted cfg s' c"
  using step
proof cases
  case (gw_connect h c' newRequest roundTrip accept rq l res nano now k cl)
  have s': "g_next s' = Suc c'" "handshake s' c' = answered roundTrip a rq" "heap (g_hub s') c' = cl"
    using gw_connect(1) by (auto simp: go_bind_eq_Inr dest!: sym [of "Inr s'"])
  have "hub_cfg h = cfg" using inv gw_connect(2) by (simp add: gw_inv_def)
  moreover have "c = c'" using c s'(1) gw_connect(3) by simp
  ultimately show ?thesis
    using upgraded_lets_in [OF gw_connect(4,5,7)] s'(2,3) by (auto simp: admitted_def)
next
  case (gw_hub_turn q)
  then show ?thesis using c by (cases q) auto
qed (use c in simp_all)

definition auth_inv :: "config \<Rightarrow> 'm gateway \<Rightarrow> bool" where
  "auth_inv cfg s \<longleftrightarrow> gw_inv cfg s \<and> (\<forall>c < g_next s. admitted cfg s c)"

interpretation authenticated: invariant_system "\<lambda>s. \<exists>m hp. s = gw_start (NewHub cfg m hp)" "gw_next_state mgr a"
  "auth_inv cfg"
  for cfg mgr a
proof
  show "auth_inv cfg s" if "\<exists>m hp. s = gw_start (NewHub cfg m hp)" for s :: "'a gateway"
    using that gw_inv_start by (auto simp: auth_inv_def gw_start_def)
  show "auth_inv cfg s'" if inv: "auth_inv cfg s" and step: "gw_next_state mgr a s s'" for s s'
  proof -
    have g: "gw_inv cfg s" and st: "gw_step mgr a s (Inr s')"
      using inv step by (simp_all add: auth_inv_def gw_next_state_def)
    have "admitted cfg s' c" if "c < g_next s'" for c
    proof (cases "c < g_next s")
      case True
      have "same_id (heap (g_hub s) c) (heap (g_hub s') c)"
        using gw_step_stream [OF st g] True by (auto simp: stream_step_def stream_grows_def)
      with inv True handshake_kept [OF st True] show ?thesis
        by (auto simp: auth_inv_def admitted_def lets_in_same_id)
    next
      case False
      then show ?thesis using admitted_new [OF st g] that by simp
    qed
    with gw.step_inv [OF g step] show ?thesis by (simp add: auth_inv_def)
  qed
qed

end
