(* ===== verification/HubWork.thy ===== *)
theory HubWork
  imports HubProps
begin

text \<open>
  Progress of the loop: no handler puts anything on the queues the loop serves, so each turn
  takes exactly one request off them; while any is left a turn is possible, and the loop left
  alone empties its queues after as many turns as there were requests.
\<close>

section \<open>The work ahead of the loop\<close>

definition work :: "'m hub \<Rightarrow> nat" where
  "work h = length (buf (register h)) + length (buf (unregister h)) + length (buf (subscribe h)) +
     length (buf (unsubscribe h)) + length (buf (incoming h))"

definition run_next :: "'m channelManager option \<Rightarrow> 'm hub \<Rightarrow> 'm hub \<Rightarrow> bool" where
  "run_next mgr h h' \<longleftrightarrow> run_step mgr h (Inr h')"

text \<open>The queues are as they were.\<close>

definition same_work :: "'m hub \<Rightarrow> 'm hub \<Rightarrow> bool" where
  "same_work h h' \<longleftrightarrow> register h' = register h \<and> unregister h' = unregister h \<and>
     subscribe h' = subscribe h \<and> unsubscribe h' = unsubscribe h \<and> incoming h' = incoming h"

lemma same_work_work: "same_work h h' \<Longrightarrow> work h' = work h"
  by (simp add: same_work_def work_def)

lemma same_work_register:
  "hub_inv h \<Longrightarrow> \<not> closed (disconnect (heap h c)) \<Longrightarrow> go_ok (same_work h) (handleRegister mgr c h)"
  by (simp add: handleRegister_cases refuse_open same_work_def)

lemma same_work_unregister: "hub_inv h \<Longrightarrow> go_ok (same_work h) (handleUnregister mgr ord c h)"
  using handleUnregister_cases [of c h mgr ord] hub_inv_client(1) [of h c] by (simp add: same_work_def)

lemma same_work_subscribe: "hub_inv h \<Longrightarrow> go_ok (same_work h) (handleClientSubscribe mgr s h)"
  using deliverFrame_open [OF hub_inv_client(1), of h]
  by (simp add: handleClientSubscribe_cases Let_def sendError_def same_work_def)

lemma same_work_unsubscribe: "same_work h (handleClientUnsubscribe mgr s h)"
  by (simp add: handleClientUnsubscribe_cases Let_def same_work_def)

lemma same_work_incoming:
  "hub_inv h \<Longrightarrow> ranges ord (entry (channels h (Channel m))) \<Longrightarrow> go_ok (same_work h) (handleIncoming ord m h)"
  by (simp add: handleIncoming_cases same_work_def)

text \<open>A turn takes one request off one queue, and its handler leaves the queues as they are.\<close>

definition dequeues :: "'m hub \<Rightarrow> 'm hub \<Rightarrow> bool" where
  "dequeues h g \<longleftrightarrow>
     (\<exists>x q. recv_chan (register h) = Received x q \<and> g = h\<lparr>register := q\<rparr>) \<or>
     (\<exists>x q. recv_chan (unregister h) = Received x q \<and> g = h\<lparr>unregister := q\<rparr>) \<or>
     (\<exists>x q. recv_chan (subscribe h) = Received x q \<and> g = h\<lparr>subscribe := q\<rparr>) \<or>
     (\<exists>x q. recv_chan (unsubscribe h) = Received x q \<and> g = h\<lparr>unsubscribe := q\<rparr>) \<or>
     (\<exists>x q. recv_chan (incoming h) = Received x q \<and> g = h\<lparr>incoming := q\<rparr>)"

lemma run_step_dequeues:
  assumes step: "run_step mgr h r" and inv: "run_inv h"
  shows "\<exists>g. dequeues h g \<and> go_ok (same_work g) r"
proof -
  note hi = run_inv_hub [OF inv]
  show ?thesis
    using step
  proof cases
    case (run_register c ch)
    have "\<not> closed (disconnect (heap h c))" by (rule pending_open [OF inv run_register(2)])
    with run_register hi show ?thesis
      by (intro exI [of _ "h\<lparr>register := ch\<rparr>"]) (simp add: dequeues_def same_work_register)
  next
    case (run_unregister c ch ord)
    with hi show ?thesis
      by (intro exI [of _ "h\<lparr>unregister := ch\<rparr>"]) (simp add: dequeues_def same_work_unregister)
  next
    case (run_subscribe s ch)
    with hi show ?thesis
      by (intro exI [of _ "h\<lparr>subscribe := ch\<rparr>"]) (simp add: dequeues_def same_work_subscribe)
  next
    case (run_unsubscribe s ch)
    then show ?thesis
      by (intro exI [of _ "h\<lparr>unsubscribe := ch\<rparr>"]) (simp add: dequeues_def same_work_unsubscribe)
  next
    case (run_incoming m ch ord)
    with hi show ?thesis
      by (intro exI [of _ "h\<lparr>incoming := ch\<rparr>"]) (simp add: dequeues_def same_work_incoming)
  qed
qed

lemma dequeues_work: "dequeues h g \<Longrightarrow> Suc (work g) = work h"
  by (auto simp: dequeues_def work_def recv_chan_Received)

lemma run_step_work:
  "run_step mgr h r \<Longrightarrow> run_inv h \<Longrightarrow> go_ok (\<lambda>h'. Suc (work h') = work h) r"
  using run_step_dequeues [of mgr h r] by (auto simp: go_ok_Inr same_work_work dequeues_work)

text \<open>The queues keep their capacities and never hold more.\<close>

definition within :: "nat \<Rightarrow> 'a gochan \<Rightarrow> bool" where
  "within n ch \<longleftrightarrow> cap ch = n \<and> length (buf ch) \<le> n"

definition hub_queues_ok :: "'m hub \<Rightarrow> bool" where
  "hub_queues_ok h \<longleftrightarrow> within 8 (register h) \<and> within 8 (unregister h) \<and> within 32 (subscribe h) \<and>
     within 32 (unsubscribe h) \<and> within 256 (incoming h)"

lemma within_offer: "within n ch \<Longrightarrow> within n (offer x ch)"
  by (simp add: within_def buf_offer has_room_def)

lemma run_step_queues:
  assumes "run_step mgr h r" and "run_inv h" and "hub_queues_ok h"
  shows "go_ok hub_queues_ok r"
proof -
  obtain g where g: "dequeues h g" "go_ok (same_work g) r" using run_step_dequeues [OF assms(1,2)] by blast
  have "hub_queues_ok g"
    using g(1) assms(3) by (auto simp: dequeues_def hub_queues_ok_def within_def recv_chan_Received)
  with g(2) show ?thesis by (auto simp: go_ok_Inr same_work_def hub_queues_ok_def)
qed

section \<open>The loop empties its queues\<close>

lemma work_pending:
  assumes "0 < work h"
  shows "\<exists>e. pending e h"
proof -
  have h: "\<exists>x. at_head x ch" if "buf ch \<noteq> []" for ch :: "'x gochan"
    using that by (auto simp: at_head_def)
  from assms consider "buf (register h) \<noteq> []" | "buf (unregister h) \<noteq> []" | "buf (subscribe h) \<noteq> []"
    | "buf (unsubscribe h) \<noteq> []" | "buf (incoming h) \<noteq> []"
    by (auto simp: work_def)
  then show ?thesis
  proof cases
    case 1
    from h [OF this] show ?thesis by (metis pending.simps(1))
  next
    case 2
    from h [OF this] show ?thesis by (metis pending.simps(2))
  next
    case 3
    from h [OF this] show ?thesis by (metis pending.simps(3) subscription_eta)
  next
    case 4
    from h [OF this] show ?thesis by (metis pending.simps(4) subscription_eta)
  next
    case 5
    from h [OF this] show ?thesis by (metis pending.simps(5) incomingMessage_eta)
  qed
qed

interpretation hub_loop: invariant_system "\<lambda>h. \<exists>cfg m hp. h = NewHub cfg m hp" "run_next mgr" run_inv
  for mgr
proof
  show "run_inv h" if "\<exists>cfg m hp. h = NewHub cfg m hp" for h
    using that hub_inv_new by (auto simp: run_inv_def caps_ok_def pending_ok_def owned_def)
      (auto simp: NewHub_def)
  show "run_inv h'" if "run_inv h" "run_next mgr h h'" for h h'
    using run_step_safe [OF _ that(1), of mgr "Inr h'"] that(2) by (simp add: run_next_def)
qed

lemma run_next_work: "run_inv h \<Longrightarrow> run_next mgr h h' \<Longrightarrow> Suc (work h') = work h"
  using run_step_work [of mgr h "Inr h'"] by (simp add: run_next_def)

lemma run_next_exists:
  assumes "run_inv h" and "0 < work h"
  shows "\<exists>h'. run_next mgr h h'"
proof -
  obtain e where "pending e h" using work_pending [OF assms(2)] by blast
  from pending_step [OF assms(1) this, of mgr] show ?thesis by (auto simp: run_next_def go_ok_Inr)
qed

lemma turns_work: "(run_next mgr ^^ n) h h' \<Longrightarrow> run_inv h \<Longrightarrow> n + work h' = work h \<and> run_inv h'"
proof (induction n arbitrary: h')
  case (Suc n)
  then obtain g where g: "(run_next mgr ^^ n) h g" "run_next mgr g h'" by auto
  with Suc have "n + work g = work h" "run_inv g" by auto
  with run_next_work [OF _ g(2)] hub_loop.step_inv [OF _ g(2)] show ?case by auto
qed simp

lemma drain: "run_inv h \<Longrightarrow> \<exists>h'. (run_next mgr)^** h h' \<and> work h' = 0"
proof (induction "work h" arbitrary: h)
  case 0
  then show ?case by auto
next
  case (Suc n)
  then obtain g where g: "run_next mgr h g" using run_next_exists [of h mgr] by auto
  with Suc.hyps(2) Suc.prems have "n = work g" using run_next_work by fastforce
  from Suc.hyps(1) [OF this hub_loop.step_inv [OF Suc.prems g]] obtain h'
    where "(run_next mgr)^** g h'" "work h' = 0" by blast
  with g show ?case by (meson converse_rtranclp_into_rtranclp)
qed

text \<open>
  C12: the hub's loop never blocks and never runs on: from any state that satisfies the
  invariant, turns with nobody sending to the hub end, after exactly as many turns as there
  were requests queued, in a state where every queue is empty; and until then there is always a
  next turn, whatever requests were taken first.
\<close>

theorem hub_drains:
  assumes "run_inv h"
  shows "(\<forall>n h'. (run_next mgr ^^ n) h h' \<longrightarrow> n + work h' = work h \<and> (0 < work h' \<longrightarrow> (\<exists>h''. run_next mgr h' h''))) \<and>
    (\<exists>h'. (run_next mgr ^^ work h) h h' \<and> work h' = 0)"
proof (intro conjI allI impI)
  fix n h'
  assume r: "(run_next mgr ^^ n) h h'"
  show "n + work h' = work h" using turns_work [OF r assms] by simp
  show "\<exists>h''. run_next mgr h' h''" if "0 < work h'"
    using turns_work [OF r assms] that run_next_exists by blast
next
  obtain h' where h': "(run_next mgr)^** h h'" "work h' = 0" using drain [OF assms] by blast
  then obtain n where n: "(run_next mgr ^^ n) h h'" by (meson rtranclp_imp_relpowp)
  with turns_work [OF n assms] h'(2) show "\<exists>h'. (run_next mgr ^^ work h) h h' \<and> work h' = 0" by auto
qed

theorem hub_drains_witness:
  "\<exists>h'. run_next None sample_pending h' \<and> work h' = 0"
proof -
  have "work sample_pending = 1"
    by (simp add: work_def sample_pending_def sample_hub0_def NewHub_def)
  then show ?thesis using hub_drains [OF sample_pending_inv, of None] by auto
qed

end
