(* ===== verification/GatewayBounds.thy ===== *)
theory GatewayBounds
  imports GatewayAuth HubWork
begin

text \<open>
  Memory: the queues of the hub and of every client stay within their capacities in all runs.
\<close>

definition client_queues_ok :: "client \<Rightarrow> bool" where
  "client_queues_ok k \<longleftrightarrow> within 64 (send k) \<and> within 1 (disconnect k)"

definition bounded :: "'m gateway \<Rightarrow> bool" where
  "bounded s \<longleftrightarrow> hub_queues_ok (g_hub s) \<and> (\<forall>c < g_next s. client_queues_ok (heap (g_hub s) c))"

lemma client_queues_more:
  "queued_more J k k' \<Longrightarrow> client_queues_ok k \<Longrightarrow> client_queues_ok k'"
  by (simp add: queued_more_def same_id_def queues_ok_def client_queues_ok_def within_def)

lemma client_queues_new: "ws_client nano now res k = (k', cl) \<Longrightarrow> client_queues_ok cl"
  by (auto simp: ws_client_def newPumpClient_def client_queues_ok_def within_def split: prod.splits)

lemma client_queues_recv: "wp_recv cs k = Some k' \<Longrightarrow> client_queues_ok k \<Longrightarrow> client_queues_ok k'"
  by (auto simp: wp_recv_def recv_chan_def client_queues_ok_def within_def
      split: wp_case.splits recv.splits if_splits list.splits)

lemma post_queues: "post e h = Some h' \<Longrightarrow> hub_queues_ok h \<Longrightarrow> hub_queues_ok h'"
  by (cases e) (auto simp: hub_queues_ok_def within_offer split: if_splits)

lemma posts_queues: "posts es h = Some h' \<Longrightarrow> hub_queues_ok h \<Longrightarrow> hub_queues_ok h'"
  by (induction es arbitrary: h) (auto simp: post_queues split: bind_splits)

lemma bounded_step:
  assumes step: "gw_step mgr a s (Inr s')" and inv: "gw_inv cfg s" and b: "bounded s"
  shows "bounded s'"
  using step
proof cases
  case (gw_connect h c newRequest roundTrip accept rq l res nano now k cl)
  then show ?thesis
    using b client_queues_new [OF gw_connect(5)]
    by (auto simp: bounded_def hub_queues_ok_def within_offer less_Suc_eq go_bind_eq_Inr dest!: sym [of "Inr s'"])
next
  case (gw_read h c inp es go_on h')
  then show ?thesis using b posts_queues [OF gw_read(5)] posts_frame [OF gw_read(5)] by (simp add: bounded_def)
next
  case (gw_exit c es h')
  then show ?thesis using b posts_queues [OF gw_exit(4)] posts_frame [OF gw_exit(4)] by (simp add: bounded_def)
next
  case (gw_spawned h c)
  then show ?thesis using b by (simp add: bounded_def hub_queues_ok_def within_offer)
next
  case (gw_write h c cs k es go_on)
  then show ?thesis
    using b client_queues_recv [OF gw_write(4)] by (auto simp: bounded_def hub_queues_ok_def)
next
  case (gw_message h m)
  then show ?thesis using b by (simp add: bounded_def hub_queues_ok_def within_offer)
next
  case (gw_hub_turn q)
  have ri: "run_inv (g_hub s)" using inv by (simp add: gw_inv_def)
  from run_step_turn [OF gw_hub_turn(3) ri] run_step_queues [OF gw_hub_turn(3) ri] b gw_hub_turn(1)
  obtain h' where h': "serves (g_hub s) h'" "hub_queues_ok h'" "s' = s\<lparr>g_hub := h'\<rparr>"
    by (auto simp: go_ok_Inr turn_def bounded_def)
  then show ?thesis
    using b client_queues_more [OF serves_queued [OF h'(1)]] by (simp add: bounded_def)
next
  case gw_cancel
  then show ?thesis using b by (simp add: bounded_def)
qed

lemma bounded_start: "bounded (gw_start (NewHub cfg m hp))"
  by (simp add: bounded_def gw_start_def NewHub_def hub_queues_ok_def within_def)

end
