(* ===== verification/GatewayDeliver.thy ===== *)
theory GatewayDeliver
  imports GatewayBounds
begin

text \<open>
  Progress of delivery: while the hub runs and a client's write pump has not ended, the pump and
  the hub can always take the turns that write to the connection, in order, everything queued for
  the client and every waiting message on a channel it is subscribed to.
\<close>

section \<open>Turns of the pump\<close>

text \<open>The messages the hub would deliver to a client.\<close>

definition gets :: "'m hub \<Rightarrow> cid \<Rightarrow> incomingMessage \<Rightarrow> bool" where
  "gets h c m \<longleftrightarrow> \<not> is_control (Channel m) \<and> c \<in> members h (Channel m)"

text \<open>What the turns below leave alone.\<close>

definition unmoved :: "'m gateway \<Rightarrow> 'm gateway \<Rightarrow> bool" where
  "unmoved s s' \<longleftrightarrow> writing s' = writing s \<and> hub_live s' = hub_live s \<and>
     members (g_hub s') = members (g_hub s) \<and> published s' = published s"

lemma unmoved_refl [simp]: "unmoved s s"
  by (simp add: unmoved_def)

lemma unmoved_trans: "unmoved s t \<Longrightarrow> unmoved t u \<Longrightarrow> unmoved s u"
  by (simp add: unmoved_def)

lemma unmoved_gets: "unmoved s s' \<Longrightarrow> gets (g_hub s') c = gets (g_hub s) c"
  by (simp add: unmoved_def gets_def fun_eq_iff)

lemma pump_turn:
  assumes "c \<in> writing s" and "buf (send (heap (g_hub s) c)) = p # ps"
  shows "\<exists>s'. gw_next_state mgr a s s' \<and> unmoved s s' \<and> to_handle s' = to_handle s \<and>
    buf (send (heap (g_hub s') c)) = ps \<and> written (wire s' c) = written (wire s c) @ [p]"
proof -
  let ?k = "heap (g_hub s) c"
  let ?k' = "?k\<lparr>send := (send ?k)\<lparr>buf := ps\<rparr>\<rparr>"
  let ?s' = "s\<lparr>g_hub := (g_hub s)\<lparr>heap := (heap (g_hub s))(c := ?k')\<rparr>, writing := writing s,
      wire := (wire s)(c := wire s c @ [ConnWrite p])\<rparr>"
  have "wp_recv (WpPayload p None) ?k = Some ?k'" using assms(2) by (simp add: wp_recv_def recv_chan_def)
  from gw_write [OF refl assms(1) this, of "[ConnWrite p]" True mgr a]
  have "gw_next_state mgr a s ?s'" by (simp add: gw_next_state_def write_step_def)
  moreover have "members (g_hub ?s') = members (g_hub s)" by (auto simp: members_def fun_eq_iff)
  ultimately show ?thesis by (intro exI [of _ ?s']) (simp add: unmoved_def to_handle_def)
qed

lemma pump_turns:
  assumes "c \<in> writing s"
  shows "\<exists>s'. (gw_next_state mgr a)^** s s' \<and> unmoved s s' \<and> to_handle s' = to_handle s \<and>
    buf (send (heap (g_hub s') c)) = [] \<and>
    written (wire s' c) = written (wire s c) @ buf (send (heap (g_hub s) c))"
  using assms
proof (induction "buf (send (heap (g_hub s) c))" arbitrary: s)
  case Nil
  then show ?case by (intro exI [of _ s]) simp
next
  case (Cons p ps)
  obtain t where t: "gw_next_state mgr a s t" "unmoved s t" "to_handle t = to_handle s"
    "buf (send (heap (g_hub t) c)) = ps" "written (wire t c) = written (wire s c) @ [p]"
    using pump_turn [OF Cons.prems Cons.hyps(2) [symmetric], of mgr a] by blast
  have "c \<in> writing t" using t(2) Cons.prems by (simp add: unmoved_def)
  from Cons.hyps(1) [OF t(4) [symmetric] this] obtain u where
    u: "(gw_next_state mgr a)^** t u" "unmoved t u" "to_handle u = to_handle t"
    "buf (send (heap (g_hub u) c)) = []" "written (wire u c) = written (wire t c) @ ps"
    using t(4) by blast
  have "(gw_next_state mgr a)^** s u" using t(1) u(1) by (rule converse_rtranclp_into_rtranclp)
  then show ?case
    using u(3-5) t(3,5) unmoved_trans [OF t(2) u(2)] Cons.hyps(2) by (intro exI [of _ u]) (simp add: sym [of "_ # _"])
qed

section \<open>Turns of the hub\<close>

lemma incoming_members:
  assumes "hub_inv h" and "ranges ord (entry (channels h (Channel m)))"
  shows "\<exists>h'. handleIncoming ord m h = Inr h' \<and> incoming h' = incoming h \<and> members h' = members h \<and>
    send (heap h' c) = (if gets h c m then send (delivered (Payload m) (heap h c)) else send (heap h c))"
  by (auto simp: handleIncoming_cases [OF assms] gets_def members_def fun_eq_iff)

lemma message_turn:
  assumes inv: "gw_inv cfg s" and live: "hub_live s" and q: "to_handle s = m # ms"
    and k: "buf (send (heap (g_hub s) c)) = []" "0 < cap (send (heap (g_hub s) c))"
  shows "\<exists>s'. gw_next_state mgr a s s' \<and> unmoved s s' \<and> to_handle s' = ms \<and> wire s' = wire s \<and>
    buf (send (heap (g_hub s') c)) = (if gets (g_hub s) c m then [Payload m] else [])"
proof -
  let ?g = "(g_hub s)\<lparr>incoming := (incoming (g_hub s))\<lparr>buf := ms\<rparr>\<rparr>"
  have g: "hub_inv ?g" using inv by (simp add: gw_inv_def run_inv_hub)
  have "finite (members ?g (Channel m))" using hub_inv_finite [OF g] by (simp add: members_def)
  then have "finite (entry (channels ?g (Channel m)))" unfolding hub_inv_members [OF g] by simp
  then obtain ord where o: "ranges ord (entry (channels ?g (Channel m)))" using ranges_exists by blast
  obtain h' where h': "handleIncoming ord m ?g = Inr h'" "incoming h' = incoming ?g" "members h' = members ?g"
    "send (heap h' c) = (if gets ?g c m then send (delivered (Payload m) (heap ?g c)) else send (heap ?g c))"
    using incoming_members [OF g o, of c] by blast
  have "recv_chan (incoming (g_hub s)) = Received m ((incoming (g_hub s))\<lparr>buf := ms\<rparr>)"
    using q by (simp add: to_handle_def recv_chan_def)
  from run_incoming [OF this, of ord mgr] o h'(1) have "run_step mgr (g_hub s) (Inr h')" by simp
  from gw_hub_turn [OF live this, of a] have "gw_next_state mgr a s (s\<lparr>g_hub := h'\<rparr>)"
    by (simp add: gw_next_state_def)
  moreover have open_gets: "\<not> closed (send (heap (g_hub s) c))" if "gets (g_hub s) c m"
    using hub_inv_client(1) [OF g, of c] that by (simp add: gets_def members_def open_client_def)
  have "gets ?g c m = gets (g_hub s) c m" by (simp add: gets_def members_def)
  then have "buf (send (heap h' c)) = (if gets (g_hub s) c m then [Payload m] else [])"
    using h'(4) k open_gets by (simp add: delivered_def has_room_def buf_offer)
  moreover have "members ?g = members (g_hub s)" by (simp add: members_def fun_eq_iff)
  ultimately show ?thesis
    using h'(2,3) by (intro exI [of _ "s\<lparr>g_hub := h'\<rparr>"]) (simp add: unmoved_def to_handle_def)
qed

section \<open>Delivery\<close>

lemma gw_next_bounded:
  "gw_next_state mgr a s s' \<Longrightarrow> gw_inv cfg s \<and> bounded s \<Longrightarrow> gw_inv cfg s' \<and> bounded s'"
  using gw.step_inv [of cfg s mgr a s'] bounded_step [of mgr a s s' cfg] by (simp add: gw_next_state_def)

lemma gw_run_bounded:
  "(gw_next_state mgr a)^** s s' \<Longrightarrow> gw_inv cfg s \<and> bounded s \<Longrightarrow> gw_inv cfg s' \<and> bounded s'"
  by (induction rule: rtranclp_induct) (use gw_next_bounded in blast)+

lemma delivery:
  assumes "gw_inv cfg s \<and> bounded s" and "hub_live s" and "c \<in> writing s"
  shows "\<exists>s'. (gw_next_state mgr a)^** s s' \<and> unmoved s s' \<and> to_handle s' = [] \<and>
    buf (send (heap (g_hub s') c)) = [] \<and>
    written (wire s' c) = written (wire s c) @ buf (send (heap (g_hub s) c)) @
      map Payload (filter (gets (g_hub s) c) (to_handle s))"
  using assms
proof (induction "to_handle s" arbitrary: s)
  case Nil
  then show ?case using pump_turns [OF Nil.prems(3), of mgr a] by auto
next
  case (Cons m ms)
  obtain t where t: "(gw_next_state mgr a)^** s t" "unmoved s t" "to_handle t = m # ms"
    "buf (send (heap (g_hub t) c)) = []" "written (wire t c) = written (wire s c) @ buf (send (heap (g_hub s) c))"
    using pump_turns [OF Cons.prems(3), of mgr a] Cons.hyps(2) by metis
  have inv: "gw_inv cfg t \<and> bounded t" by (rule gw_run_bounded [OF t(1) Cons.prems(1)])
  have live: "hub_live t" "c \<in> writing t" using t(2) Cons.prems by (simp_all add: unmoved_def)
  have "c < g_next t" using inv live(2) by (auto simp: gw_inv_def)
  then have "0 < cap (send (heap (g_hub t) c))"
    using inv by (simp add: bounded_def client_queues_ok_def within_def)
  from message_turn [OF inv [THEN conjunct1] live(1) t(3,4) this, of mgr a] obtain u where
    u: "gw_next_state mgr a t u" "unmoved t u" "to_handle u = ms" "wire u = wire t"
    "buf (send (heap (g_hub u) c)) = (if gets (g_hub t) c m then [Payload m] else [])"
    by blast
  have "gw_inv cfg u \<and> bounded u" "hub_live u" "c \<in> writing u"
    using gw_next_bounded [OF u(1) inv] u(2) live by (simp_all add: unmoved_def)
  from Cons.hyps(1) [OF u(3) [symmetric] this] obtain v where
    v: "(gw_next_state mgr a)^** u v" "unmoved u v" "to_handle v = []" "buf (send (heap (g_hub v) c)) = []"
    "written (wire v c) = written (wire u c) @ buf (send (heap (g_hub u) c)) @ map Payload (filter (gets (g_hub u) c) ms)"
    using u(3) by auto
  have "(gw_next_state mgr a)^** s v" using t(1) u(1) v(1) by (meson rtranclp.rtrancl_into_rtrancl rtranclp_trans)
  moreover have "unmoved s v" using t(2) u(2) v(2) by (metis unmoved_trans)
  moreover have "gets (g_hub u) c = gets (g_hub s) c" "gets (g_hub t) c = gets (g_hub s) c"
    using t(2) u(2) unmoved_gets by metis+
  ultimately show ?case
    using v(3-5) u(4,5) t(5) Cons.hyps(2) [symmetric] by (intro exI [of _ v]) simp
qed

end
