(* ===== verification/GatewayLogs.thy ===== *)
theory GatewayLogs
  imports GatewayOrder
begin

text \<open>
  What the hub writes into the log, over whole runs: records about a client carry its connection
  id and its user; the only records with a channel name, and so the only ones that can show a
  session key, are the failures of a Redis command and the malformed control messages.
\<close>

section \<open>The hub's records\<close>

abbreviation "hub_component \<equiv> (''component'', LString ''hub'')"

definition client_record :: "client \<Rightarrow> log_rec \<Rightarrow> bool" where
  "client_record k r \<longleftrightarrow>
     (let who = [hub_component, (''connection_id'', LString (connectionID k)), (''user_id'', LInt (userID k))]
      in msg r \<in> {''client registered'', ''client unregistered''} \<and> attrs r = who \<or>
         msg r = ''refused client'' \<and>
           (\<exists>reason \<in> {''max_connections_total'', ''max_connections_per_user''}.
              attrs r = who @ [(''reason'', LString reason)]))"

definition redis_record :: "client \<Rightarrow> log_rec \<Rightarrow> bool" where
  "redis_record k r \<longleftrightarrow> msg r \<in> {''redis subscribe failed'', ''redis unsubscribe failed''} \<and>
     (\<exists>ch e. may_hold k ch \<and> attrs r = [hub_component, (''channel'', LString ch), (''err'', LError e)])"

definition control_record :: "incomingMessage \<Rightarrow> log_rec \<Rightarrow> bool" where
  "control_record m r \<longleftrightarrow> msg r = ''control message: malformed'' \<and> is_control (Channel m) \<and>
     parse_control (Payload m) = None \<and> attrs r = [hub_component, (''channel'', LString (Channel m))]"

definition hub_record :: "(cid \<Rightarrow> client) \<Rightarrow> cid \<Rightarrow> incomingMessage set \<Rightarrow> log_rec \<Rightarrow> bool" where
  "hub_record hp n ms r \<longleftrightarrow> (\<exists>c < n. client_record (hp c) r \<or> redis_record (hp c) r) \<or> (\<exists>m \<in> ms. control_record m r)"

lemma hub_record_mono:
  assumes "hub_record hp n ms r" and "n \<le> n'" and "ms \<subseteq> ms'" and "\<And>c. c < n \<Longrightarrow> same_id (hp c) (hp' c)"
  shows "hub_record hp' n' ms' r"
proof -
  have "client_record (hp' c) r = client_record (hp c) r" "redis_record (hp' c) r = redis_record (hp c) r" if "c < n" for c
    using assms(4) [OF that]
    by (simp_all add: client_record_def redis_record_def may_hold_def control_channels_def same_id_def)
  then show ?thesis using assms(1-3) unfolding hub_record_def by (meson order_less_le_trans subsetD)
qed

section \<open>What a turn of the hub writes\<close>

definition says :: "(log_rec \<Rightarrow> bool) \<Rightarrow> 'm hub \<Rightarrow> 'm hub \<Rightarrow> bool" where
  "says P h h' \<longleftrightarrow> (\<exists>rs. hub_log h' = hub_log h @ rs \<and> list_all P rs)"

lemma says_same: "hub_log h' = hub_log h \<Longrightarrow> says P h h'"
  by (simp add: says_def)

lemma says_refl [simp]: "says P h h"
  by (simp add: says_same)

lemma says_note: "P r \<Longrightarrow> hub_log h' = hub_log h @ [r] \<Longrightarrow> says P h h'"
  by (simp add: says_def)

lemma says_trans: "says P h g \<Longrightarrow> says P g h' \<Longrightarrow> says P h h'"
  by (auto simp: says_def)

lemma redis_entry:
  "may_hold k ch \<Longrightarrow> m \<in> {''redis subscribe failed'', ''redis unsubscribe failed''} \<Longrightarrow>
     redis_record k (log_entry l m [hub_component, (''channel'', LString ch), (''err'', LError e)])"
  by (auto simp: redis_record_def)

lemma says_addSubscription:
  assumes "may_hold k ch" and "\<And>r. redis_record k r \<Longrightarrow> P r"
  shows "says P h (addSubscription mgr c ch h)"
  using assms(2) [OF redis_entry [OF assms(1)]]
  by (simp add: addSubscription_def Let_def says_def split: option.split prod.split)

lemma says_removeFromChannel:
  assumes "may_hold k ch" and "\<And>r. redis_record k r \<Longrightarrow> P r"
  shows "says P h (removeFromChannel mgr c ch h)"
  using assms(2) [OF redis_entry [OF assms(1)]]
  by (simp add: removeFromChannel_def Let_def says_def split: option.split prod.split)

lemma says_fold_removeFromChannel:
  assumes "\<And>ch. ch \<in> set chs \<Longrightarrow> may_hold k ch" and "\<And>r. redis_record k r \<Longrightarrow> P r"
  shows "says P h (fold (removeFromChannel mgr c) chs h)"
  using assms(1)
proof (induction chs arbitrary: h)
  case (Cons ch chs)
  have "says P h (removeFromChannel mgr c ch h)" by (rule says_removeFromChannel [OF Cons.prems assms(2)]) simp_all
  with Cons show ?case by (auto intro: says_trans)
qed simp

lemma says_register:
  assumes "hub_inv h" and "\<not> closed (disconnect (heap h c))"
    and P: "\<And>r. client_record (heap h c) r \<or> redis_record (heap h c) r \<Longrightarrow> P r"
  shows "go_ok (says P h) (handleRegister mgr c h)"
proof -
  let ?k = "heap h c"
  have refused: "go_ok (says P h) (refuse c co reason h)"
    if "reason \<in> {''max_connections_total'', ''max_connections_per_user''}" for co reason
    unfolding refuse_open [OF assms(2)]
    by (simp, rule says_note, rule P) (use that in \<open>auto simp: client_record_def Let_def\<close>)
  have ctl: "may_hold ?k (session_channel (sessionKey ?k))" "may_hold ?k (user_channel (userID ?k))"
    by (simp_all add: may_hold_def control_channels_def)
  have "says P h (registered mgr c h)"
    unfolding registered_def Let_def
    by (rule says_trans [OF says_note says_trans [OF says_addSubscription [OF ctl(1)] says_addSubscription [OF ctl(2)]]])
       (auto simp: client_record_def Let_def intro: P)
  with refused show ?thesis by (simp add: handleRegister_cases [OF assms(1)])
qed

lemma says_unregister:
  assumes inv: "hub_inv h" and ord: "c \<in> clients h \<Longrightarrow> set ord = subscribed (heap h c)"
    and P: "\<And>r. c \<in> clients h \<Longrightarrow> client_record (heap h c) r \<or> redis_record (heap h c) r \<Longrightarrow> P r"
  shows "go_ok (says P h) (handleUnregister mgr ord c h)"
proof (cases "c \<in> clients h")
  case True
  let ?k = "heap h c"
  let ?h = "h\<lparr>clients := clients h - {c},
     userClients := (userClients h) (userID ?k := drop_member c (userClients h (userID ?k)))\<rparr>"
  have "says P ?h (fold (removeFromChannel mgr c) ord ?h)"
    using ord [OF True] hub_inv_client(3) [OF inv True] P [OF True] by (intro says_fold_removeFromChannel) auto
  then have "says P h (fold (removeFromChannel mgr c) ord ?h)" by (simp add: says_def)
  then have "says P h (unregistered mgr ord c h)"
    unfolding unregistered_def
    by (rule says_trans [OF _ says_note]) (auto simp: client_record_def Let_def intro: P [OF True])
  with True handleUnregister_cases [of c h mgr ord] hub_inv_client(1) [OF inv] show ?thesis by simp
qed (simp add: handleUnregister_def)

lemma says_subscribe:
  assumes inv: "hub_inv h"
    and P: "\<And>r. sub_client s \<in> clients h \<Longrightarrow> redis_record (heap h (sub_client s)) r \<Longrightarrow> P r"
  shows "go_ok (says P h) (handleClientSubscribe mgr s h)"
proof -
  have "go_ok (says P h) (sendError c ch reason h)" if "c \<in> clients h" for c ch reason
    using deliverFrame_open [OF hub_inv_client(1) [OF inv that]] by (simp add: sendError_def says_same)
  moreover have "may_hold (heap h (sub_client s)) (sub_channel s)"
    if "valid_channel (sub_channel s)" "sub_channel s \<in> allowedChannels (heap h (sub_client s))"
    using that by (simp add: may_hold_def valid_channel_def)
  then have "says P h (addSubscription mgr (sub_client s) (sub_channel s) h)" if "sub_client s \<in> clients h"
    "valid_channel (sub_channel s)" "sub_channel s \<in> allowedChannels (heap h (sub_client s))"
    using that P by (intro says_addSubscription)
  ultimately show ?thesis by (auto simp: handleClientSubscribe_cases Let_def)
qed

lemma says_unsubscribe:
  assumes inv: "hub_inv h"
    and P: "\<And>r. sub_client s \<in> clients h \<Longrightarrow> redis_record (heap h (sub_client s)) r \<Longrightarrow> P r"
  shows "says P h (handleClientUnsubscribe mgr s h)"
proof (cases "sub_client s \<in> clients h \<and> sub_channel s \<in> subscribed (heap h (sub_client s))")
  case True
  let ?h = "upd_client (sub_client s) (\<lambda>k. k\<lparr>subscribed := subscribed k - {sub_channel s}\<rparr>) h"
  have "says P ?h (removeFromChannel mgr (sub_client s) (sub_channel s) ?h)"
    using True hub_inv_client(3) [OF inv] P by (intro says_removeFromChannel) auto
  with True show ?thesis by (simp add: handleClientUnsubscribe_cases Let_def says_def)
qed (auto simp: handleClientUnsubscribe_cases Let_def)

lemma says_incoming:
  assumes "hub_inv h" and "ranges ord (entry (channels h (Channel m)))" and P: "\<And>r. control_record m r \<Longrightarrow> P r"
  shows "go_ok (says P h) (handleIncoming ord m h)"
  using P [of "log_entry LevelWarn ''control message: malformed'' [hub_component, (''channel'', LString (Channel m))]"]
  by (auto simp: handleIncoming_cases [OF assms(1,2)] control_record_def says_def)

lemma run_step_says:
  assumes step: "run_step mgr h r" and inv: "run_inv h" and below: "clients h \<union> set (buf (register h)) \<subseteq> {..<n}"
  shows "go_ok (says (hub_record (heap h) n (set (buf (incoming h)))) h) r"
proof -
  note hi = run_inv_hub [OF inv]
  let ?P = "hub_record (heap h) n (set (buf (incoming h)))"
  have P: "?P r" if "c < n" "client_record (heap h c) r \<or> redis_record (heap h c) r" for c r
    using that by (auto simp: hub_record_def)
  have same: "go_ok (says ?P h) q" if "go_ok (says ?P g) q" "hub_log g = hub_log h" for g q
    using that by (auto simp: says_def go_ok_Inr)
  show ?thesis
    using step
  proof cases
    case (run_register c ch)
    have "c < n" using run_register(2) below by (auto simp: recv_chan_Received)
    moreover have "\<not> closed (disconnect (heap h c))" by (rule pending_open [OF inv run_register(2)])
    ultimately show ?thesis
      unfolding run_register(1) using hi P by (intro same [OF says_register]) auto
  next
    case (run_unregister c ch ord)
    then show ?thesis
      unfolding run_unregister(1) using hi P below by (intro same [OF says_unregister]) (auto simp: ranges_def)
  next
    case (run_subscribe s ch)
    then show ?thesis
      unfolding run_subscribe(1) using hi P below by (intro same [OF says_subscribe]) auto
  next
    case (run_unsubscribe s ch)
    have "says ?P (h\<lparr>unsubscribe := ch\<rparr>) (handleClientUnsubscribe mgr s (h\<lparr>unsubscribe := ch\<rparr>))"
      using hi P below by (intro says_unsubscribe) auto
    then show ?thesis unfolding run_unsubscribe(1) by (intro same [of "h\<lparr>unsubscribe := ch\<rparr>"]) simp_all
  next
    case (run_incoming m ch ord)
    have "m \<in> set (buf (incoming h))" using run_incoming(2) by (auto simp: recv_chan_Received)
    with run_incoming(3) show ?thesis
      unfolding run_incoming(1) using hi by (intro same [OF says_incoming]) (auto simp: hub_record_def)
  qed
qed

section \<open>Over runs\<close>

definition logs_inv :: "'m gateway \<Rightarrow> bool" where
  "logs_inv s \<longleftrightarrow> list_all (hub_record (heap (g_hub s)) (g_next s) (set (published s))) (hub_log (g_hub s))"

lemma gw_step_says:
  assumes step: "gw_step mgr a s (Inr s')" and inv: "gw_inv cfg s"
  shows "says (hub_record (heap (g_hub s)) (g_next s) (set (published s))) (g_hub s) (g_hub s')"
  using step
proof cases
  case (gw_connect h c newRequest roundTrip accept rq l res nano now k cl)
  then show ?thesis by (auto simp: go_bind_eq_Inr intro!: says_same dest!: sym [of "Inr s'"])
next
  case (gw_read h c inp es go_on h')
  then show ?thesis using posts_frame [OF gw_read(5)] by (simp add: says_same)
next
  case (gw_exit c es h')
  then show ?thesis using posts_frame [OF gw_exit(4)] by (simp add: says_same)
next
  case (gw_hub_turn q)
  have ri: "run_inv (g_hub s)" using inv by (simp add: gw_inv_def)
  have "clients (g_hub s) \<union> set (buf (register (g_hub s))) \<subseteq> {..<g_next s}" "set (buf (incoming (g_hub s))) \<subseteq> set (published s)"
    using inv by (auto simp: gw_inv_def)
  with run_step_says [OF gw_hub_turn(3) ri this(1)] gw_hub_turn(1) show ?thesis
    using hub_record_mono [OF _ order_refl] by (fastforce simp: go_ok_Inr says_def list_all_iff)
qed (simp_all add: says_same)

lemma logs_inv_step:
  assumes step: "gw_step mgr a s (Inr s')" and inv: "gw_inv cfg s" and logs: "logs_inv s"
  shows "logs_inv s'"
proof -
  have "g_next s \<le> g_next s'" "set (published s) \<subseteq> set (published s')"
    "\<And>c. c < g_next s \<Longrightarrow> same_id (heap (g_hub s) c) (heap (g_hub s') c)"
    using gw_step_stream [OF step inv] by (auto simp: stream_step_def stream_grows_def)
  note mono = hub_record_mono [OF _ this]
  obtain rs where "hub_log (g_hub s') = hub_log (g_hub s) @ rs"
    "list_all (hub_record (heap (g_hub s)) (g_next s) (set (published s))) rs"
    using gw_step_says [OF step inv] by (auto simp: says_def)
  with logs mono show ?thesis by (auto simp: logs_inv_def list_all_iff)
qed

lemma logs_inv_start: "logs_inv (gw_start (NewHub cfg m hp))"
  by (simp add: logs_inv_def gw_start_def NewHub_def)

end
