(* ===== verification/GatewayWire.thy ===== *)
theory GatewayWire
  imports GatewayRevoke
begin

text \<open>
  What is done on each connection, over whole runs: the read limit comes first, every request the
  pumps post is about their own client, the read pump ends with exactly one unregister request, the
  write pump with at most one close frame, and what the pumps log names their connection only. And
  the connection ids of all clients a process accepts are different.
\<close>

section \<open>The protocol of a connection\<close>

text \<open>What a pump may log.\<close>

definition pump_record :: "string \<Rightarrow> log_rec \<Rightarrow> bool" where
  "pump_record cn r \<longleftrightarrow> lvl r = LevelDebug \<and>
     (let who = (''connection_id'', LString cn)
      in msg r = ''malformed client frame'' \<and> attrs r = [who] \<or>
         msg r = ''unknown client action'' \<and>
           (\<exists>a. a \<notin> {''subscribe'', ''unsubscribe''} \<and> attrs r = [who, (''action'', LString a)]) \<or>
         msg r \<in> {''read pump exit'', ''write error'', ''ping failed''} \<and> (\<exists>e. attrs r = [who, (''err'', LError e)]))"

fun event_ok :: "config \<Rightarrow> cid \<Rightarrow> string \<Rightarrow> conn_event \<Rightarrow> bool" where
  "event_ok cfg c cn (SetReadLimit n) = False"
| "event_ok cfg c cn (StartRead t) = (t = PongTimeout cfg)"
| "event_ok cfg c cn (ConnPing t) = (t = PongTimeout cfg)"
| "event_ok cfg c cn (PostSubscribe s) = (sub_client s = c)"
| "event_ok cfg c cn (PostUnsubscribe s) = (sub_client s = c)"
| "event_ok cfg c cn (PostUnregister d) = (d = c)"
| "event_ok cfg c cn (PumpLog r) = pump_record cn r"
| "event_ok cfg c cn _ = True"

fun from_reader :: "conn_event \<Rightarrow> bool" where
  "from_reader (StartRead t) = True"
| "from_reader (PostSubscribe s) = True"
| "from_reader (PostUnsubscribe s) = True"
| "from_reader CloseNow = True"
| "from_reader (PostUnregister d) = True"
| "from_reader _ = False"

fun from_writer :: "conn_event \<Rightarrow> bool" where
  "from_writer (ConnWrite p) = True"
| "from_writer (ConnPing t) = True"
| "from_writer (ConnClose co r) = True"
| "from_writer _ = False"

text \<open>
  \<open>cn\<close> is the connection's id, \<open>r\<close> and \<open>w\<close> tell whether its read pump has yet to unregister the client
  and whether its write pump runs.
\<close>

definition wire_ok :: "config \<Rightarrow> cid \<Rightarrow> string \<Rightarrow> bool \<Rightarrow> bool \<Rightarrow> conn_event list \<Rightarrow> bool" where
  "wire_ok cfg c cn r w es \<longleftrightarrow>
     (\<exists>fs. es = SetReadLimit (MaxMessageSize cfg) # fs \<and> list_all (event_ok cfg c cn) fs) \<and>
     (if r then PostUnregister c \<notin> set es
      else \<exists>rs. filter from_reader es = rs @ [CloseNow, PostUnregister c] \<and> PostUnregister c \<notin> set rs) \<and>
     (closes es = [] \<or> \<not> w \<and> (\<exists>ws co t. filter from_writer es = ws @ [ConnClose co t] \<and> closes ws = []))"

section \<open>Turns of the pumps\<close>

lemma closes_filter: "closes (filter from_writer es) = closes es"
proof (induction es)
  case (Cons e es)
  then show ?case by (cases e) simp_all
qed simp

lemma read_step_events:
  assumes "read_step cfg c cn inp = (es, go_on)"
  shows "list_all (event_ok cfg c cn) es" and "PostUnregister c \<notin> set es" and "filter from_writer es = []"
  using assms
  by (auto simp: read_step_def frame_events_def pump_record_def split: prod.splits if_splits read_outcome.splits option.splits)

lemma write_step_events:
  assumes "write_step cfg cn cs = (es, go_on)"
  shows "list_all (event_ok cfg c cn) es" and "filter from_reader es = []"
    and "closes es = [] \<or> \<not> go_on \<and> (\<exists>co t. es = [ConnClose co t])"
  using assms by (auto simp: write_step_def pump_record_def split: wp_case.splits if_splits option.splits)

lemma no_reader_no_unregister: "filter from_reader es = [] \<Longrightarrow> PostUnregister c \<notin> set es"
  by (induction es) (auto split: if_splits)

lemma wire_ok_new: "wire_ok cfg c cn True True [SetReadLimit (MaxMessageSize cfg)]"
  by (simp add: wire_ok_def)

lemma wire_ok_read:
  assumes "wire_ok cfg c cn True w es" and "read_step cfg c cn inp = (fs, go_on)"
  shows "wire_ok cfg c cn True w (es @ fs)"
  using assms(1) read_step_events [OF assms(2)] read_step_closes [OF assms(2)]
  by (auto simp: wire_ok_def)

lemma wire_ok_exit:
  assumes "wire_ok cfg c cn True w es"
  shows "wire_ok cfg c cn False w (es @ [CloseNow, PostUnregister c])"
  using assms by (auto simp: wire_ok_def)

lemma wire_ok_write:
  assumes w: "wire_ok cfg c cn r True es" and st: "write_step cfg cn cs = (fs, go_on)"
  shows "wire_ok cfg c cn r go_on (es @ fs)"
proof -
  note f = write_step_events [OF st]
  have c: "closes es = []" using w by (simp add: wire_ok_def)
  from f(3) have "closes (es @ fs) = [] \<or>
      \<not> go_on \<and> (\<exists>ws co t. filter from_writer (es @ fs) = ws @ [ConnClose co t] \<and> closes ws = [])"
    using c closes_filter [of es] by auto
  moreover have "\<exists>gs. es @ fs = SetReadLimit (MaxMessageSize cfg) # gs \<and> list_all (event_ok cfg c cn) gs"
    using w f(1) [of c] by (auto simp: wire_ok_def)
  ultimately show ?thesis using w f(2) no_reader_no_unregister [OF f(2)] by (simp add: wire_ok_def)
qed

section \<open>Over runs\<close>

definition wire_inv :: "config \<Rightarrow> 'm gateway \<Rightarrow> bool" where
  "wire_inv cfg s \<longleftrightarrow> reading s \<inter> exiting s = {} \<and>
     (\<forall>c < g_next s. wire_ok cfg c (connectionID (heap (g_hub s) c)) (c \<in> reading s \<union> exiting s) (c \<in> writing s) (wire s c))"

lemma wire_inv_start: "wire_inv cfg (gw_start h)"
  by (simp add: wire_inv_def gw_start_def)

text \<open>A step that does nothing on any connection.\<close>

lemma wire_inv_same:
  assumes "wire_inv cfg s" and "g_next s' = g_next s" and "reading s' = reading s" and "exiting s' = exiting s"
    and "writing s' = writing s" and "wire s' = wire s"
    and "\<And>c. c < g_next s \<Longrightarrow> connectionID (heap (g_hub s') c) = connectionID (heap (g_hub s) c)"
  shows "wire_inv cfg s'"
  using assms by (simp add: wire_inv_def)

lemma wire_inv_step:
  assumes step: "gw_step mgr a s (Inr s')" and inv: "gw_inv cfg s" and w: "wire_inv cfg s"
  shows "wire_inv cfg s'"
proof -
  have id: "connectionID (heap (g_hub s') c) = connectionID (heap (g_hub s) c)" if "c < g_next s" for c
    using gw_step_stream [OF step inv] that by (auto simp: stream_step_def stream_grows_def same_id_def)
  have cfg: "hub_cfg (g_hub s) = cfg" using inv by (simp add: gw_inv_def)
  have below: "reading s \<union> exiting s \<union> writing s \<subseteq> {..<g_next s}" using inv by (simp add: gw_inv_def)
  from step show ?thesis
  proof cases
    case (gw_connect h c newRequest roundTrip accept rq l res nano now k cl)
    have s': "g_next s' = Suc c" "reading s' = insert c (reading s)" "exiting s' = exiting s"
      "writing s' = insert c (writing s)" "wire s' = (wire s)(c := [SetReadLimit (MaxMessageSize cfg)])"
      using gw_connect(1,2) cfg by (auto simp: go_bind_eq_Inr dest!: sym [of "Inr s'"])
    then show ?thesis
      using w id gw_connect(3) below wire_ok_new [of cfg c] by (auto simp: wire_inv_def less_Suc_eq)
  next
    case (gw_read h c inp es go_on h')
    have "c \<notin> exiting s" using w gw_read(3) by (auto simp: wire_inv_def)
    then show ?thesis
      using w id cfg gw_read below wire_ok_read [OF _ gw_read(4)] by (auto simp: wire_inv_def)
  next
    case (gw_exit c es h')
    have "c \<notin> reading s" using w gw_exit(2) by (auto simp: wire_inv_def)
    then show ?thesis
      using w id gw_exit below wire_ok_exit by (auto simp: wire_inv_def)
  next
    case (gw_write h c cs k es go_on)
    then show ?thesis
      using w id cfg below wire_ok_write [OF _ gw_write(5)] by (auto simp: wire_inv_def)
  next
    case (gw_hub_turn q)
    then show ?thesis using w id by (intro wire_inv_same [OF w]) (auto simp: go_bind_eq_Inr dest!: sym [of "Inr s'"])
  qed (use w id in \<open>simp_all add: wire_inv_def\<close>)
qed

lemma wire_inv_pump_log:
  assumes "wire_inv cfg s" and "c < g_next s" and "PumpLog r \<in> set (wire s c)"
  shows "pump_record (connectionID (heap (g_hub s) c)) r"
proof -
  have "wire_ok cfg c (connectionID (heap (g_hub s) c)) (c \<in> reading s \<union> exiting s) (c \<in> writing s) (wire s c)"
    using assms(1,2) by (simp add: wire_inv_def)
  then obtain fs where "wire s c = SetReadLimit (MaxMessageSize cfg) # fs"
    "list_all (event_ok cfg c (connectionID (heap (g_hub s) c))) fs"
    unfolding wire_ok_def by blast
  with assms(3) show ?thesis by (auto simp: list_all_iff)
qed

section \<open>Connection ids\<close>

definition ids_inv :: "'m gateway \<Rightarrow> bool" where
  "ids_inv s \<longleftrightarrow> g_ctr s = \<lparr>cnt = of_nat (g_next s)\<rparr> \<and>
     (\<forall>c < g_next s. Suc c < 2 ^ 63 \<longrightarrow> (\<exists>x. connectionID (heap (g_hub s) c) = FormatInt (int (Suc c)) @ ''-'' @ x))"

lemma ids_inv_start: "ids_inv (gw_start h)"
  by (simp add: ids_inv_def gw_start_def newCounter_def)

lemma ws_client_id:
  assumes "ws_client nano now res \<lparr>cnt = of_nat n\<rparr> = (k, cl)"
  shows "k = \<lparr>cnt = of_nat (Suc n)\<rparr>" and "Suc n < 2 ^ 63 \<Longrightarrow> \<exists>x. connectionID cl = FormatInt (int (Suc n)) @ ''-'' @ x"
  using assms counter_next_nat [of n]
  by (auto simp: ws_client_def newPumpClient_def generateConnectionID_def formatUserID_def counter_next_def Let_def
      add.commute split: prod.splits)

lemma ids_inv_step:
  assumes step: "gw_step mgr a s (Inr s')" and inv: "gw_inv cfg s" and i: "ids_inv s"
  shows "ids_inv s'"
proof -
  have id: "connectionID (heap (g_hub s') c) = connectionID (heap (g_hub s) c)" if "c < g_next s" for c
    using gw_step_stream [OF step inv] that by (auto simp: stream_step_def stream_grows_def same_id_def)
  have same: "ids_inv s'" if "g_ctr s' = g_ctr s" "g_next s' = g_next s"
    using i id that by (simp add: ids_inv_def)
  from step show ?thesis
  proof cases
    case (gw_connect h c newRequest roundTrip accept rq l res nano now k cl)
    have s': "g_next s' = Suc c" "g_ctr s' = k" "heap (g_hub s') c = cl"
      using gw_connect(1) by (auto simp: go_bind_eq_Inr dest!: sym [of "Inr s'"])
    have "ws_client nano now res \<lparr>cnt = of_nat c\<rparr> = (k, cl)" using gw_connect(3,5) i by (simp add: ids_inv_def)
    note cl = ws_client_id [OF this]
    show ?thesis
      using i id s' cl gw_connect(3) by (auto simp: ids_inv_def less_Suc_eq)
  next
    case (gw_hub_turn q)
    then show ?thesis by (intro same) (auto simp: go_bind_eq_Inr dest!: sym [of "Inr s'"])
  qed (rule same; simp)+
qed

lemma ids_distinct:
  assumes "ids_inv s" and "c < d" and "d < g_next s" and "g_next s < 2 ^ 63"
  shows "connectionID (heap (g_hub s) c) \<noteq> connectionID (heap (g_hub s) d)"
proof
  assume eq: "connectionID (heap (g_hub s) c) = connectionID (heap (g_hub s) d)"
  have num: "\<exists>x. connectionID (heap (g_hub s) n) = FormatInt (int (Suc n)) @ ''-'' @ x" if "n \<le> d" for n
  proof -
    have "n < g_next s" "Suc n < 2 ^ 63" using that assms(3,4) by linarith+
    with assms(1) show ?thesis unfolding ids_inv_def by blast
  qed
  obtain x y where "connectionID (heap (g_hub s) c) = FormatInt (int (Suc c)) @ ''-'' @ x"
    "connectionID (heap (g_hub s) d) = FormatInt (int (Suc d)) @ ''-'' @ y"
    using num [of c] num [of d] assms(2) by auto
  with eq have "Suc c = Suc d" by (metis FormatInt_dash_inj)
  with assms(2) show False by simp
qed

end
