(* ===== verification/Process.thy ===== *)
theory Process
  imports GatewayRevoke GatewayDeliver GatewayLogs GatewayWire
begin

text \<open>
  The process as \<open>main\<close> of \<open>gateway/main.go\<close> runs it: the goroutines of theory \<open>Gateway\<close>, the
  health probe, and \<open>main\<close> itself, which waits for a signal, raises \<open>shuttingDown\<close>, waits for
  the HTTP server to shut down, cancels the context of the hub and closes the Redis subscriber.

  The HTTP server is not part of the repository: its \<open>Shutdown\<close> returns at some time (it is
  given ten seconds), and requests may still be served until the process has ended.
\<close>

section \<open>State and steps\<close>

datatype phase = Serving | Draining | Cancelled | Closed | Exited

text \<open>The goroutine that runs \<open>ListenAndServe\<close>.\<close>

datatype listener = NotStarted | Listening | Stopped

text \<open>The fields of \<open>http.Server\<close> that \<open>main\<close> sets, beside its handler.\<close>

record http_server =
  Addr :: string
  ReadHeaderTimeout :: int

definition main_server :: "config \<Rightarrow> http_server" where
  "main_server cfg = \<lparr>Addr = ListenAddr cfg, ReadHeaderTimeout = 10 * Second\<rparr>"

text \<open>
  \<open>inflight\<close> holds the messages the pub/sub connection has put on the Go channel that \<open>readLoop\<close>
  ranges over and that the loop has not taken yet. \<open>heard\<close>, \<open>probes\<close> and \<open>refusals\<close> are
  histories: all messages put on that channel, the answers of the health probe, and the upgrade
  requests that did not become connections.
\<close>

record process =
  p_gw :: "unit redisSubscriber gateway"
  p_phase :: phase
  p_server :: listener
  p_http :: http_server
  inflight :: "(string \<times> bytes) list"
  heard :: "(string \<times> bytes) list"
  shuttingDown :: bool
  probes :: "http_reply list"
  refusals :: "(ws_request \<times> ws_outcome) list"
  main_log :: "log_rec list"

abbreviation p_hub :: "process \<Rightarrow> unit redisSubscriber hub" where
  "p_hub p \<equiv> g_hub (p_gw p)"

abbreviation p_mgr :: "process \<Rightarrow> unit redisSubscriber" where
  "p_mgr p \<equiv> manager (p_hub p)"

definition set_mgr :: "unit redisSubscriber \<Rightarrow> process \<Rightarrow> process" where
  "set_mgr m p = p\<lparr>p_gw := (p_gw p)\<lparr>g_hub := (p_hub p)\<lparr>manager := m\<rparr>\<rparr>\<rparr>"

definition main_logs :: "log_rec list \<Rightarrow> process \<Rightarrow> process" where
  "main_logs rs p = p\<lparr>main_log := main_log p @ setupLogger (LogLevel (hub_cfg (p_hub p))) rs\<rparr>"

definition main_note :: "log_level \<Rightarrow> string \<Rightarrow> (string \<times> log_val) list \<Rightarrow> process \<Rightarrow> process" where
  "main_note l m kvs p = main_logs [log_entry l m kvs] p"

definition main_run :: "environment \<Rightarrow> (string \<Rightarrow> go_error option) \<Rightarrow> fatal + Authenticator \<times> process" where
  "main_run env parseURL = go_bind (main_start env parseURL) (\<lambda>(cfg, a, h).
     Inr (a, \<lparr>p_gw = gw_start h, p_phase = Serving, p_server = NotStarted, p_http = main_server cfg,
       inflight = [], heard = [], shuttingDown = False, probes = [], refusals = [], main_log = []\<rparr>))"

text \<open>\<open><-sigCh\<close> and what follows it, up to the call of \<open>Shutdown\<close>.\<close>

definition begin_shutdown :: "process \<Rightarrow> process" where
  "begin_shutdown p = (main_note LevelInfo ''shutdown initiated'' [] p)\<lparr>shuttingDown := True, p_phase := Draining\<rparr>"

text \<open>The deferred \<open>mgr.Close()\<close>.\<close>

definition close_manager :: "redis_net \<Rightarrow> process \<Rightarrow> process" where
  "close_manager net p = (set_mgr (fst (rs_Close net (p_mgr p))) p)\<lparr>p_phase := Closed\<rparr>"

text \<open>
  The hub's loop may end only once its context is cancelled; until the process has ended every
  goroutine may take steps. A message is handed to the hub by the read loop only: its turn takes the
  oldest message in flight and, if a callback is attached, makes the step of theory \<open>Gateway\<close> that
  sends it on \<open>incoming\<close>. Redis sends this process messages only on channels it has been asked for;
  it may do so late, after an UNSUBSCRIBE or while the subscriber is being closed.
\<close>

inductive proc_step :: "redis_net \<Rightarrow> Authenticator \<Rightarrow> process \<Rightarrow> process go \<Rightarrow> bool"
  for net :: redis_net and a :: Authenticator where
  proc_gateway:
    "p_phase p \<noteq> Exited \<Longrightarrow> gw_step (Some (redisManager net)) a (p_gw p) r \<Longrightarrow>
     (\<forall>s. r = Inr s \<longrightarrow> published s = published (p_gw p) \<and>
        (hub_live s \<or> \<not> hub_live (p_gw p) \<or> p_phase p \<in> {Cancelled, Closed})) \<Longrightarrow>
     proc_step net a p (go_bind r (\<lambda>s. Inr (p\<lparr>p_gw := s\<rparr>)))"
| proc_redis:
    "p_phase p \<noteq> Exited \<Longrightarrow> ch \<in> asked_for (issued (p_mgr p)) \<Longrightarrow>
     proc_step net a p (Inr (p\<lparr>inflight := inflight p @ [(ch, b)], heard := heard p @ [(ch, b)]\<rparr>))"
| proc_message:
    "p_phase p \<noteq> Exited \<Longrightarrow> 0 < read_loops (p_mgr p) \<Longrightarrow> inflight p = m # ms \<Longrightarrow>
     read_turn (p_mgr p) m = Some ((), x) \<Longrightarrow> gw_step (Some (redisManager net)) a (p_gw p) (Inr s) \<Longrightarrow>
     published s = published (p_gw p) @ [x] \<Longrightarrow>
     proc_step net a p (Inr (p\<lparr>p_gw := s, inflight := ms\<rparr>))"
| proc_unheard:
    "p_phase p \<noteq> Exited \<Longrightarrow> 0 < read_loops (p_mgr p) \<Longrightarrow> inflight p = m # ms \<Longrightarrow>
     read_turn (p_mgr p) m = None \<Longrightarrow>
     proc_step net a p (Inr (p\<lparr>inflight := ms\<rparr>))"
| proc_probe:
    "p_phase p \<noteq> Exited \<Longrightarrow> HealthzHandler net (shuttingDown p) (p_mgr p) = (m, reply) \<Longrightarrow>
     main_mux method path = ToHealthz \<Longrightarrow>
     proc_step net a p (Inr ((set_mgr m p)\<lparr>probes := probes p @ [reply]\<rparr>))"
| proc_refused:
    "p_phase p \<noteq> Exited \<Longrightarrow> main_mux (req_Method r) (req_Path r) = ToWs \<Longrightarrow>
     wsHandler (hub_cfg (p_hub p)) (Validate newRequest roundTrip a) accept r = (l, out) \<Longrightarrow>
     (\<forall>res. out \<noteq> Upgraded res) \<Longrightarrow>
     proc_step net a p (Inr ((main_logs l p)\<lparr>refusals := refusals p @ [(r, out)]\<rparr>))"
| proc_listening:
    "p_phase p \<noteq> Exited \<Longrightarrow> p_server p = NotStarted \<Longrightarrow>
     proc_step net a p (Inr ((main_note LevelInfo ''gateway listening''
       [(''addr'', LString (ListenAddr (hub_cfg (p_hub p))))] p)\<lparr>p_server := Listening\<rparr>))"
| proc_server_error:
    "p_phase p \<noteq> Exited \<Longrightarrow> p_server p = Listening \<Longrightarrow>
     proc_step net a p (Inr ((main_note LevelError ''server error'' [(''err'', LError e)] p)\<lparr>p_server := Stopped\<rparr>))"
| proc_server_closed:
    "p_phase p \<notin> {Serving, Exited} \<Longrightarrow> p_server p = Listening \<Longrightarrow>
     proc_step net a p (Inr (p\<lparr>p_server := Stopped\<rparr>))"
| proc_signal: "p_phase p = Serving \<Longrightarrow> proc_step net a p (Inr (begin_shutdown p))"
| proc_shutdown: "p_phase p = Draining \<Longrightarrow> proc_step net a p (Inr (p\<lparr>p_phase := Cancelled\<rparr>))"
| proc_close: "p_phase p = Cancelled \<Longrightarrow> proc_step net a p (Inr (close_manager net p))"
| proc_exit: "p_phase p = Closed \<Longrightarrow> proc_step net a p (Inr (p\<lparr>p_phase := Exited\<rparr>))"

definition proc_next :: "redis_net \<Rightarrow> Authenticator \<Rightarrow> process \<Rightarrow> process \<Rightarrow> bool" where
  "proc_next net a p p' \<longleftrightarrow> proc_step net a p (Inr p')"

inductive_cases proc_nextE [consumes 1, case_names gateway redis message unheard probe refused listening server_error server_closed signal shutdown close exit]:
  "proc_step net a p (Inr p')"

section \<open>The invariant\<close>

text \<open>
  What holds of the goroutines: who the clients are, the order of delivery, the bounds, the log, what
  is done on the connections and their ids.
\<close>

definition run_time_inv :: "config \<Rightarrow> 'm gateway \<Rightarrow> bool" where
  "run_time_inv cfg s \<longleftrightarrow> auth_inv cfg s \<and> order_inv s \<and> bounded s \<and> logs_inv s \<and>
     wire_inv cfg s \<and> ids_inv s"

lemma run_time_inv_gw: "run_time_inv cfg s \<Longrightarrow> gw_inv cfg s"
  by (simp add: run_time_inv_def auth_inv_def)

lemma run_time_inv_step:
  assumes "gw_step mgr a s (Inr s')" and "run_time_inv cfg s"
  shows "run_time_inv cfg s'"
proof -
  have inv: "gw_inv cfg s" "auth_inv cfg s" "order_inv s" "bounded s" "logs_inv s" "wire_inv cfg s" "ids_inv s"
    using assms(2) run_time_inv_gw by (simp_all add: run_time_inv_def)
  have "gw_next_state mgr a s s'" using assms(1) by (simp add: gw_next_state_def)
  with inv(2) have "auth_inv cfg s'" by (rule authenticated.step_inv)
  then show ?thesis
    using order_inv_step [OF inv(3) gw_step_stream [OF assms(1) inv(1)]] bounded_step [OF assms(1) inv(1,4)]
      logs_inv_step [OF assms(1) inv(1,5)] wire_inv_step [OF assms(1) inv(1,6)] ids_inv_step [OF assms(1) inv(1,7)]
    by (simp add: run_time_inv_def)
qed

lemma run_time_inv_start: "run_time_inv cfg (gw_start (NewHub cfg m hp))"
proof -
  have "auth_inv cfg (gw_start (NewHub cfg m hp))" "order_inv (gw_start (NewHub cfg m hp))"
    by (rule authenticated.start_inv, blast) (rule ordered.start_inv [THEN conjunct2], blast)
  then show ?thesis by (simp add: run_time_inv_def bounded_start logs_inv_start wire_inv_start ids_inv_start)
qed

definition proc_inv :: "config \<Rightarrow> process \<Rightarrow> bool" where
  "proc_inv cfg p \<longleftrightarrow> run_time_inv cfg (p_gw p) \<and>
     (shuttingDown p \<longleftrightarrow> p_phase p \<noteq> Serving) \<and>
     (p_phase p \<in> {Serving, Draining} \<longrightarrow> hub_live (p_gw p)) \<and>
     (if p_phase p \<in> {Serving, Draining, Cancelled}
      then redis_sync rs_held rs_single rs_faulty (p_hub p) \<and> times_issued CloseClient (issued (p_mgr p)) = 0
      else rs_closed (p_mgr p) \<and> times_issued CloseClient (issued (p_mgr p)) = 1)"

lemma set_mgr_simps [simp]:
  "p_phase (set_mgr m p) = p_phase p" "shuttingDown (set_mgr m p) = shuttingDown p"
  "probes (set_mgr m p) = probes p" "hub_live (p_gw (set_mgr m p)) = hub_live (p_gw p)"
  "p_mgr (set_mgr m p) = m" "published (p_gw (set_mgr m p)) = published (p_gw p)"
  "wire (p_gw (set_mgr m p)) = wire (p_gw p)" "heap (p_hub (set_mgr m p)) = heap (p_hub p)"
  by (simp_all add: set_mgr_def)

lemma main_logs_simps [simp]:
  "p_gw (main_logs rs p) = p_gw p" "p_phase (main_logs rs p) = p_phase p"
  "shuttingDown (main_logs rs p) = shuttingDown p" "probes (main_logs rs p) = probes p"
  by (simp_all add: main_logs_def)

lemma main_note_simps [simp]:
  "p_gw (main_note l m kvs p) = p_gw p" "p_phase (main_note l m kvs p) = p_phase p"
  "shuttingDown (main_note l m kvs p) = shuttingDown p" "probes (main_note l m kvs p) = probes p"
  by (simp_all add: main_note_def)

lemma begin_shutdown_simps [simp]:
  "p_gw (begin_shutdown p) = p_gw p" "p_phase (begin_shutdown p) = Draining"
  "shuttingDown (begin_shutdown p)" "probes (begin_shutdown p) = probes p"
  by (simp_all add: begin_shutdown_def)

lemma close_manager_simps [simp]:
  "p_phase (close_manager net p) = Closed" "shuttingDown (close_manager net p) = shuttingDown p"
  "probes (close_manager net p) = probes p" "p_mgr (close_manager net p) = fst (rs_Close net (p_mgr p))"
  by (simp_all add: close_manager_def)

text \<open>The gateway's invariant and the streams do not depend on the manager.\<close>

lemma run_inv_manager [simp]: "run_inv (h\<lparr>manager := m\<rparr>) = run_inv h"
  by (simp add: run_inv_def hub_inv_def caps_ok_def pending_ok_def fresh_client_def members_def owned_def)

lemma gw_inv_manager [simp]: "gw_inv cfg (s\<lparr>g_hub := (g_hub s)\<lparr>manager := m\<rparr>\<rparr>) = gw_inv cfg s"
  by (simp add: gw_inv_def)

lemma run_time_inv_manager [simp]:
  "run_time_inv cfg (s\<lparr>g_hub := (g_hub s)\<lparr>manager := m\<rparr>\<rparr>) = run_time_inv cfg s"
  by (simp add: run_time_inv_def auth_inv_def admitted_def order_inv_def stream_of_def to_handle_def bounded_def
      hub_queues_ok_def logs_inv_def wire_inv_def ids_inv_def)

lemma run_time_inv_set_mgr [simp]: "run_time_inv cfg (p_gw (set_mgr m p)) = run_time_inv cfg (p_gw p)"
  by (simp add: set_mgr_def)

lemma run_time_inv_close_manager [simp]:
  "run_time_inv cfg (p_gw (close_manager net p)) = run_time_inv cfg (p_gw p)"
  by (simp add: close_manager_def)

text \<open>What the subscriber's calls issue.\<close>

lemma issued_Subscribe: "times_issued CloseClient (issued (fst (rs_Subscribe net ch m))) = times_issued CloseClient (issued m)"
  by (auto simp: rs_Subscribe_def issue_def Let_def split: option.split)

lemma issued_Unsubscribe: "times_issued CloseClient (issued (fst (rs_Unsubscribe net ch m))) = times_issued CloseClient (issued m)"
  by (auto simp: rs_Unsubscribe_def issue_def Let_def split: option.split)

lemma issued_Close: "\<not> rs_closed m \<Longrightarrow>
    rs_closed (fst (rs_Close net m)) \<and>
    times_issued CloseClient (issued (fst (rs_Close net m))) = Suc (times_issued CloseClient (issued m))"
  by (simp add: rs_Close_def issue_def Let_def)

lemma sync_ping:
  assumes "redis_sync rs_held rs_single rs_faulty h"
  shows "redis_sync rs_held rs_single rs_faulty (h\<lparr>manager := fst (rs_Ping net (manager h))\<rparr>)"
  using assms rs_inv_Ping [of "manager h" net]
  by (auto simp: redis_sync_def rs_single_def rs_Ping_def issue_def Let_def rs_held_def rs_faulty_def)

lemma Healthz_manager:
  "HealthzHandler net sd m = (m', reply) \<Longrightarrow> m' = (if sd then m else fst (rs_Ping net m))"
  by (auto simp: HealthzHandler_def split: if_splits prod.splits option.splits)

lemma closed_manager_step:
  assumes "gw_step (Some (redisManager net)) a s (Inr s')" and "gw_inv cfg s" and "rs_closed (manager (g_hub s))"
  shows "manager (g_hub s') = manager (g_hub s)"
  using gw_step_manager [of "redisManager net" a s s' cfg "\<lambda>m. m = manager (g_hub s)", OF assms(1,2) refl] assms(3)
  by (simp add: redisManager_def rs_Subscribe_def rs_Unsubscribe_def)

lemma gateway_step_closes:
  assumes "gw_step (Some (redisManager net)) a s (Inr s')" and "gw_inv cfg s"
  shows "times_issued CloseClient (issued (manager (g_hub s'))) = times_issued CloseClient (issued (manager (g_hub s)))"
  using gw_step_manager [of "redisManager net" a s s' cfg
      "\<lambda>m. times_issued CloseClient (issued m) = times_issued CloseClient (issued (manager (g_hub s)))", OF assms refl]
  by (simp add: redisManager_def issued_Subscribe issued_Unsubscribe)

lemma proc_step_inv:
  assumes step: "proc_step net a p r" and inv: "proc_inv cfg p"
  shows "go_ok (proc_inv cfg) r \<or> PingInterval cfg \<le> 0 \<and> r = Inl NonPositiveTicker"
  using step
proof cases
  case (proc_gateway q)
  have g: "gw_inv cfg (p_gw p)" "run_time_inv cfg (p_gw p)"
    using inv run_time_inv_gw by (auto simp: proc_inv_def)
  from gw_step_inv [OF proc_gateway(3) g(1)] consider s where "q = Inr s" "gw_inv cfg s"
    | "PingInterval cfg \<le> 0" "q = Inl NonPositiveTicker"
    by (auto simp: go_ok_Inr)
  then show ?thesis
  proof cases
    case 1
    have st: "gw_step (Some (redisManager net)) a (p_gw p) (Inr s)" using proc_gateway(3) 1 by simp
    have "run_time_inv cfg s" by (rule run_time_inv_step [OF st g(2)])
    moreover have "redis_sync rs_held rs_single rs_faulty (g_hub s)"
      if "redis_sync rs_held rs_single rs_faulty (p_hub p)"
      by (rule rsub.sync_gw_step [OF st g(1) that])
    ultimately have "proc_inv cfg (p\<lparr>p_gw := s\<rparr>)"
      using inv 1 proc_gateway(2,4) gateway_step_closes [OF st g(1)] closed_manager_step [OF st g(1)]
      by (cases "p_phase p") (auto simp: proc_inv_def)
    with 1 proc_gateway(1) show ?thesis by simp
  qed (use proc_gateway(1) in simp)
next
  case (proc_message m ms x s)
  have s: "s = handed x (p_gw p)" by (rule message_handed [OF proc_message(6,7)])
  have "run_time_inv cfg s" using run_time_inv_step [OF proc_message(6)] inv by (simp add: proc_inv_def)
  moreover have "redis_sync rs_held rs_single rs_faulty (g_hub s)"
    if "redis_sync rs_held rs_single rs_faulty (p_hub p)"
    using that by (rule redis_sync_same) (simp_all add: s handed_def)
  ultimately have "proc_inv cfg (p\<lparr>p_gw := s, inflight := ms\<rparr>)"
    using inv by (auto simp: proc_inv_def s handed_def)
  with proc_message(1) show ?thesis by simp
next
  case (proc_probe m reply)
  have "redis_sync rs_held rs_single rs_faulty (p_hub (set_mgr m p))"
    if "redis_sync rs_held rs_single rs_faulty (p_hub p)"
    using that sync_ping [OF that, of net] Healthz_manager [OF proc_probe(3)] by (simp add: set_mgr_def)
  moreover have "times_issued CloseClient (issued m) = times_issued CloseClient (issued (p_mgr p))"
    "rs_closed m = rs_closed (p_mgr p)"
    using Healthz_manager [OF proc_probe(3)] by (simp_all add: rs_Ping_def issue_def Let_def)
  ultimately show ?thesis using inv proc_probe(1) by (cases "p_phase p") (auto simp: proc_inv_def)
next
  case proc_close
  then have "\<not> rs_closed (p_mgr p)" "times_issued CloseClient (issued (p_mgr p)) = 0"
    using inv by (simp_all add: proc_inv_def redis_sync_def rs_single_def)
  with issued_Close [of "p_mgr p" net] proc_close inv show ?thesis by (simp add: proc_inv_def)
qed (use inv in \<open>auto simp: proc_inv_def\<close>)
section \<open>Reachable states of the process\<close>

lemma main_run_Inr:
  assumes "main_run env parseURL = Inr (a, p)" and "Load env = Inr cfg"
  shows "main_start env parseURL = Inr (cfg, a, NewHub cfg main_manager (\<lambda>_. no_client))" and "a = NewAuthenticator cfg"
    and "p = \<lparr>p_gw = gw_start (NewHub cfg main_manager (\<lambda>_. no_client)), p_phase = Serving,
      p_server = NotStarted, p_http = main_server cfg, inflight = [], heard = [], shuttingDown = False, probes = [], refusals = [], main_log = []\<rparr>"
proof -
  obtain cfg' h where h: "main_start env parseURL = Inr (cfg', a, h)"
    and p: "p = \<lparr>p_gw = gw_start h, p_phase = Serving, p_server = NotStarted, p_http = main_server cfg',
      inflight = [], heard = [], shuttingDown = False, probes = [], refusals = [], main_log = []\<rparr>"
    using assms(1) by (auto simp: main_run_def go_bind_eq_Inr)
  note r = main_start_Inr [OF h]
  have "cfg' = cfg" using r(1) assms(2) by simp
  with h p r show "main_start env parseURL = Inr (cfg, a, NewHub cfg main_manager (\<lambda>_. no_client))"
    "a = NewAuthenticator cfg" "p = \<lparr>p_gw = gw_start (NewHub cfg main_manager (\<lambda>_. no_client)), p_phase = Serving,
      p_server = NotStarted, p_http = main_server cfg, inflight = [], heard = [], shuttingDown = False, probes = [], refusals = [], main_log = []\<rparr>"
    by simp_all
qed

interpretation proc: invariant_system
  "\<lambda>p. \<exists>env parseURL a. main_run env parseURL = Inr (a, p) \<and> Load env = Inr cfg" "proc_next net a" "proc_inv cfg"
  for cfg net a
proof
  show "proc_inv cfg p" if st: "\<exists>env parseURL a. main_run env parseURL = Inr (a, p) \<and> Load env = Inr cfg" for p
  proof -
    obtain env parseURL a where m: "main_run env parseURL = Inr (a, p)" "Load env = Inr cfg" using st by blast
    note r = main_run_Inr [OF m]
    let ?s = "gw_start (NewHub cfg main_manager (\<lambda>_. no_client))"
    have "\<exists>env parseURL a h. main_start env parseURL = Inr (cfg, a, h) \<and> ?s = gw_start h"
      by (intro exI conjI, rule r(1), rule refl)
    then have "redis_gw_inv cfg ?s" by (rule redis_gw.start_inv)
    moreover have "run_time_inv cfg ?s" by (rule run_time_inv_start)
    moreover have "hub_live ?s" "issued (manager (g_hub ?s)) = []"
      by (simp_all add: gw_start_def NewHub_def)
    ultimately show ?thesis by (simp add: proc_inv_def redis_gw_inv_def r(3))
  qed
  show "proc_inv cfg p'" if "proc_inv cfg p" "proc_next net a p p'" for p p'
    using proc_step_inv [of net a p "Inr p'" cfg] that by (simp add: proc_next_def)
qed

definition proc_reaches :: "environment \<Rightarrow> (string \<Rightarrow> go_error option) \<Rightarrow> redis_net \<Rightarrow> config \<Rightarrow> process \<Rightarrow> bool" where
  "proc_reaches env parseURL net cfg p \<longleftrightarrow> Load env = Inr cfg \<and>
     (\<exists>a p0. main_run env parseURL = Inr (a, p0) \<and> (proc_next net a)^** p0 p)"

lemma proc_reaches_inv: "proc_reaches env parseURL net cfg p \<Longrightarrow> proc_inv cfg p"
proof -
  assume "proc_reaches env parseURL net cfg p"
  then obtain a p0 where "main_run env parseURL = Inr (a, p0)" "Load env = Inr cfg" "(proc_next net a)^** p0 p"
    by (auto simp: proc_reaches_def)
  then show ?thesis using proc.reachable_inv [of p0 cfg net a p] by blast
qed

text \<open>Induction over the states the process reaches, the invariant at hand.\<close>

lemma proc_reaches_induct [consumes 1, case_names start step]:
  assumes "proc_reaches env parseURL net cfg p"
    and start: "\<And>p0. p_gw p0 = gw_start (NewHub cfg main_manager (\<lambda>_. no_client)) \<Longrightarrow> probes p0 = [] \<Longrightarrow>
      main_log p0 = [] \<Longrightarrow> inflight p0 = [] \<Longrightarrow> heard p0 = [] \<Longrightarrow> P p0"
    and step: "\<And>y z. proc_inv cfg y \<Longrightarrow> proc_next net (NewAuthenticator cfg) y z \<Longrightarrow> P y \<Longrightarrow> P z"
  shows "P p"
proof -
  obtain a p0 where m: "Load env = Inr cfg" "main_run env parseURL = Inr (a, p0)" "(proc_next net a)^** p0 p"
    using assms(1) by (auto simp: proc_reaches_def)
  note r = main_run_Inr [OF m(2,1)]
  have inv: "proc_inv cfg p0" using m(1,2) proc.start_inv by blast
  from m(3) show ?thesis
  proof (induction rule: rtranclp_induct)
    case base
    show ?case by (rule start) (simp_all add: r(3))
  next
    case (step y z)
    then show ?case using assms(3) [of y z] proc.run_inv [OF step.hyps(1) inv] r(2) by simp
  qed
qed

lemma proc_reaches_step:
  "proc_reaches env parseURL net cfg p \<Longrightarrow> proc_next net (NewAuthenticator cfg) p p' \<Longrightarrow>
     proc_reaches env parseURL net cfg p'"
  unfolding proc_reaches_def by (metis main_run_Inr(2) rtranclp.rtrancl_into_rtrancl)

abbreviation "demo_process \<equiv> \<lparr>p_gw = demo0, p_phase = Serving, p_server = NotStarted,
  p_http = main_server sample_config, inflight = [], heard = [], shuttingDown = False, probes = [], refusals = [], main_log = []\<rparr>"

lemma demo_process_run: "main_run sample_env (\<lambda>_. None) = Inr (demo_a, demo_process)"
  by (simp add: main_run_def sample_main demo0_def)

lemma demo_process_reached: "proc_reaches sample_env (\<lambda>_. None) net sample_config demo_process"
  unfolding proc_reaches_def using demo_process_run Load_sample by blast

text \<open>The phases in the order in which \<open>main\<close> goes through them.\<close>

fun rank :: "phase \<Rightarrow> nat" where
  "rank Serving = 0"
| "rank Draining = 1"
| "rank Cancelled = 2"
| "rank Closed = 3"
| "rank Exited = 4"

lemma proc_step_rank:
  assumes "proc_next net a p p'"
  shows "rank (p_phase p) \<le> rank (p_phase p') \<and> rank (p_phase p') \<le> Suc (rank (p_phase p)) \<and> p_phase p \<noteq> Exited"
  using assms unfolding proc_next_def by (cases rule: proc_nextE) (auto simp: go_bind_eq_Inr dest!: sym [of "Inr p'"])

lemma rank_inject: "rank x = rank y \<longleftrightarrow> x = y"
  by (cases x; cases y) simp_all

lemma proc_run_rank: "(proc_next net a)^** p p' \<Longrightarrow> rank (p_phase p) \<le> rank (p_phase p')"
  by (induction rule: rtranclp_induct) (auto dest: proc_step_rank)

section \<open>Lifting what the goroutines keep\<close>

lemma proc_next_gateway:
  assumes "proc_next net a p p'"
  shows "gw_next_state (Some (redisManager net)) a (p_gw p) (p_gw p') \<or>
    (\<exists>m. p_gw p' = (p_gw p)\<lparr>g_hub := (p_hub p)\<lparr>manager := m\<rparr>\<rparr>) \<or> p_gw p' = p_gw p"
  using assms unfolding proc_next_def
  by (cases rule: proc_nextE)
     (auto simp: go_bind_eq_Inr gw_next_state_def set_mgr_def close_manager_def dest!: sym [of "Inr p'"])

lemma proc_inv_gw: "proc_inv cfg p \<Longrightarrow> gw_inv cfg (p_gw p)"
  by (simp add: proc_inv_def run_time_inv_gw)

lemma proc_keeps:
  assumes run: "(proc_next net a)^** p p'" and inv: "proc_inv cfg p" and start: "Q (p_gw p)"
    and step: "\<And>s s'. gw_inv cfg s \<Longrightarrow> gw_step (Some (redisManager net)) a s (Inr s') \<Longrightarrow> Q s \<Longrightarrow> Q s'"
    and mgr: "\<And>s m. Q s \<Longrightarrow> Q (s\<lparr>g_hub := (g_hub s)\<lparr>manager := m\<rparr>\<rparr>)"
  shows "Q (p_gw p')"
  using run
proof (induction rule: rtranclp_induct)
  case base
  show ?case by (rule start)
next
  case (step y z)
  have "gw_inv cfg (p_gw y)" by (rule proc_inv_gw [OF proc.run_inv [OF step.hyps(1) inv]])
  with proc_next_gateway [OF step.hyps(2)] step.IH show ?case
    using assms(4) mgr by (metis gw_next_state_def)
qed

text \<open>
  A run of the goroutines in which the hub is not cancelled and is handed no message is a run of the
  process.
\<close>

lemma gw_next_live: "gw_next_state mgr a s s' \<Longrightarrow> hub_live s' \<Longrightarrow> hub_live s"
  unfolding gw_next_state_def
  by (erule gw_step.cases) (auto simp: go_bind_eq_Inr dest!: sym [of "Inr s'"] split: sum.splits)

lemma proc_run_of_gateway:
  assumes "(gw_next_state (Some (redisManager net)) a)^** s s'" and "hub_live s'" and "published s' = published s"
    and "p_gw p = s" and "p_phase p \<noteq> Exited"
  shows "(proc_next net a)^** p (p\<lparr>p_gw := s'\<rparr>)"
  using assms(1-3)
proof (induction rule: rtranclp_induct)
  case base
  have "p\<lparr>p_gw := s\<rparr> = p" using assms(4) by (cases p) simp
  then show ?case by simp
next
  case (step y z)
  have "hub_live y" by (rule gw_next_live [OF step.hyps(2) step.prems(1)])
  moreover have "prefix (published y) (published z)" using step.hyps(2) by (intro gw_run_published) (rule r_into_rtranclp)
  then have same: "published y = published s" "published z = published y"
    using gw_run_published [OF step.hyps(1)] step.prems(2) prefix_order.antisym by (metis, metis)
  ultimately have "(proc_next net a)^** p (p\<lparr>p_gw := y\<rparr>)" using step.IH by simp
  moreover have "proc_step net a (p\<lparr>p_gw := y\<rparr>) (Inr (p\<lparr>p_gw := z\<rparr>))"
    using proc_gateway [of "p\<lparr>p_gw := y\<rparr>" net a "Inr z"] step.hyps(2) step.prems(1) same(2) assms(5)
    by (simp add: gw_next_state_def)
  then have "proc_next net a (p\<lparr>p_gw := y\<rparr>) (p\<lparr>p_gw := z\<rparr>)" by (simp add: proc_next_def)
  ultimately show ?case by (rule rtranclp.rtrancl_into_rtrancl)
qed

lemma proc_reaches_run:
  "proc_reaches env parseURL net cfg p \<Longrightarrow> (proc_next net (NewAuthenticator cfg))^** p p' \<Longrightarrow>
     proc_reaches env parseURL net cfg p'"
  unfolding proc_reaches_def by (metis main_run_Inr(2) rtranclp_trans)

end
