(* ===== verification/ProcessProps.thy ===== *)
theory ProcessProps
  imports Process
begin

text \<open>
  The properties of the whole process: what holds in every state it can reach, from start-up to
  its end, whatever Django, Redis, the network, the peers, the clock and the scheduler do.
\<close>

section \<open>A run of the process\<close>

abbreviation "demo_proc \<equiv> proc_reaches sample_env (\<lambda>_. None) no_faults sample_config"

lemma demo_proc_step: "demo_proc p \<Longrightarrow> proc_next no_faults demo_a p p' \<Longrightarrow> demo_proc p'"
  by (rule proc_reaches_step)

lemma demo_lift:
  assumes "at_rest k s"
  shows "demo_proc (demo_process\<lparr>p_gw := s\<rparr>)"
proof -
  have s: "demo_reaches s" "hub_live s" "published s = []" using assms by (simp_all add: at_rest_def)
  obtain a h where h: "main_start sample_env (\<lambda>_. None) = Inr (sample_config, a, h)"
    and run: "(gw_next_state demo_m a)^** (gw_start h) s"
    using s(1) by (auto simp: reaches_def)
  have a: "a = demo_a" "gw_start h = demo0" using main_start_Inr [OF h] by (simp_all add: demo0_def)
  have "(proc_next no_faults a)^** demo_process (demo_process\<lparr>p_gw := s\<rparr>)"
    by (rule proc_run_of_gateway [OF run s(2)]) (simp_all add: a s(3))
  then show ?thesis
    using demo_process_run Load_sample a(1) unfolding proc_reaches_def by blast
qed

text \<open>Redis sends a message on a channel of the client; the read loop hands it to the hub.\<close>

definition hearing :: "incomingMessage \<Rightarrow> unit redisSubscriber gateway \<Rightarrow> process" where
  "hearing m s = demo_process\<lparr>p_gw := handed m s, heard := [(Channel m, Payload m)]\<rparr>"

lemma hearing_simps [simp]:
  "p_gw (hearing m s) = handed m s" "p_phase (hearing m s) = Serving" "inflight (hearing m s) = []"
  "heard (hearing m s) = [(Channel m, Payload m)]"
  by (simp_all add: hearing_def)

lemma demo_hears:
  assumes s: "at_rest k s" and ch: "Channel m \<in> subscribed k"
  shows "(proc_next no_faults demo_a)^** (demo_process\<lparr>p_gw := s\<rparr>) (hearing m s)" and "demo_proc (hearing m s)"
proof -
  let ?p = "demo_process\<lparr>p_gw := s\<rparr>" and ?x = "(Channel m, Payload m)"
  let ?q = "?p\<lparr>inflight := [?x], heard := [?x]\<rparr>"
  note mgr = at_rest_manager [OF s]
  have "proc_next no_faults demo_a ?p ?q"
    using proc_redis [of ?p "Channel m" no_faults demo_a "Payload m"] mgr(3) [OF ch] by (simp add: proc_next_def)
  moreover have "has_room (incoming (g_hub s))" using s by (simp add: at_rest_def idle_def has_room_def)
  from gw_message [OF refl this, of demo_m demo_a m]
  have "gw_step demo_m demo_a s (Inr (handed m s))" by (simp add: handed_def)
  then have "proc_next no_faults demo_a ?q (hearing m s)"
    using proc_message [of ?q ?x "[]" m no_faults demo_a "handed m s"] mgr(1,2)
    by (simp add: proc_next_def read_turn_def hearing_def handed_def)
  ultimately show r: "(proc_next no_faults demo_a)^** ?p (hearing m s)" by (meson converse_rtranclp_into_rtranclp r_into_rtranclp)
  from r show "demo_proc (hearing m s)" by (rule proc_reaches_run [OF demo_lift [OF s]])
qed

lemma demo_delivers:
  assumes s: "at_rest demo_subscriber s"
  shows "\<exists>p. demo_proc p \<and> (proc_next no_faults demo_a)^** (demo_process\<lparr>p_gw := s\<rparr>) p \<and>
    g_next (p_gw p) = 1 \<and> ''hi'' \<in> set (written (wire (p_gw p) 0))"
proof -
  obtain s' where s': "demo_runs (handed demo_news s) s'" "published s' = [demo_news]" "hub_live s'" "g_next s' = 1"
    "''hi'' \<in> set (written (wire s' 0))"
    using demo_message [OF s] by blast
  have h: "(proc_next no_faults demo_a)^** (demo_process\<lparr>p_gw := s\<rparr>) (hearing demo_news s)"
    "demo_proc (hearing demo_news s)"
    using demo_hears [OF s, of demo_news] by simp_all
  have "published (handed demo_news s) = [demo_news]" using s by (simp add: at_rest_def handed_def)
  then have r: "(proc_next no_faults demo_a)^** (hearing demo_news s) ((hearing demo_news s)\<lparr>p_gw := s'\<rparr>)"
    using s'(2) by (intro proc_run_of_gateway [OF s'(1,3)]) simp_all
  with h s'(4,5) proc_reaches_run [OF h(2) r] show ?thesis
    by (intro exI [of _ "(hearing demo_news s)\<lparr>p_gw := s'\<rparr>"]) auto
qed

lemma demo_written: "\<exists>p. demo_proc p \<and> g_next (p_gw p) = 1 \<and> ''hi'' \<in> set (written (wire (p_gw p) 0))"
  using demo3 demo_delivers by blast

lemma proc_reaches_run_time: "proc_reaches env parseURL net cfg p \<Longrightarrow> run_time_inv cfg (p_gw p)"
  using proc_reaches_inv by (simp add: proc_inv_def)

section \<open>Every reachable state\<close>

text \<open>
  C2: every client the process has accepted, registered or not, came in by an upgrade request
  without an Origin or with one on the allow-list, whose session cookie is the client's session,
  and by an answer of Django to that session with an accepted status and a body that says
  authenticated; its user and its allowed channels are those of that answer, in every state
  reached later.
\<close>

theorem clients_authenticated:
  assumes "proc_reaches env parseURL net cfg p" and "c < g_next (p_gw p)"
  shows "\<exists>r resp. handshake (p_gw p) c = Some (r, resp) \<and> lets_in cfg r resp (heap (p_hub p) c)"
  using proc_reaches_run_time [OF assms(1)] assms(2) by (simp add: run_time_inv_def auth_inv_def admitted_def)

theorem clients_authenticated_witness:
  "\<exists>p r resp. demo_proc p \<and> ''hi'' \<in> set (written (wire (p_gw p) 0)) \<and> handshake (p_gw p) 0 = Some (r, resp) \<and>
     lets_in sample_config r resp (heap (p_hub p) 0)"
proof -
  obtain p where p: "demo_proc p" "g_next (p_gw p) = 1" "''hi'' \<in> set (written (wire (p_gw p) 0))"
    using demo_written by blast
  with clients_authenticated [OF p(1), of 0] show ?thesis by auto
qed

text \<open>
  C6: in every reachable state the hub's tables are exact: a channel's entry lists the
  registered clients subscribed to it and a user's entry its registered clients, no entry is
  empty; a registered client's queues are open, and it holds only its own control channels
  and valid channels Django allowed it.
\<close>

theorem process_tables:
  assumes "proc_reaches env parseURL net cfg p"
  shows "(\<forall>ch. channels (p_hub p) ch = idx {c \<in> clients (p_hub p). ch \<in> subscribed (heap (p_hub p) c)}) \<and>
    (\<forall>u. userClients (p_hub p) u = idx {c \<in> clients (p_hub p). userID (heap (p_hub p) c) = u}) \<and>
    (\<forall>c \<in> clients (p_hub p). \<not> closed (send (heap (p_hub p) c)) \<and>
       \<not> closed (disconnect (heap (p_hub p) c)) \<and>
       (\<forall>ch \<in> subscribed (heap (p_hub p) c). ch \<in> control_channels (heap (p_hub p) c) \<or>
          ch \<in> allowedChannels (heap (p_hub p) c) \<and> valid_channel ch))"
  using run_time_inv_gw [OF proc_reaches_run_time [OF assms]]
  by (auto simp: gw_inv_def run_inv_def hub_inv_def members_def owned_def open_client_def may_hold_def
      valid_channel_def)

theorem process_tables_witness:
  "\<exists>p. demo_proc p \<and> channels (p_hub p) ''news'' = Some {0}"
proof -
  obtain s where s: "at_rest demo_subscriber s" using demo3 by blast
  then have k: "clients (g_hub s) = {0}" "heap (g_hub s) 0 = demo_subscriber" by (simp_all add: at_rest_def)
  note p = demo_lift [OF s]
  have "''news'' \<in> subscribed (heap (g_hub s) 0)" by (simp add: k(2))
  then have "{c \<in> clients (g_hub s). ''news'' \<in> subscribed (heap (g_hub s) c)} = {0}" unfolding k(1) by blast
  moreover have "channels (g_hub s) ''news'' = idx {c \<in> clients (g_hub s). ''news'' \<in> subscribed (heap (g_hub s) c)}"
    using process_tables [OF p, THEN conjunct1, rule_format, of "''news''"] by simp
  ultimately have "channels (g_hub s) ''news'' = Some {0}" by (simp add: idx_def)
  with p show ?thesis by (intro exI [of _ "demo_process\<lparr>p_gw := s\<rparr>"]) simp
qed

text \<open>
  C7: until the subscriber is closed, Redis delivers every channel the hub has an entry for,
  except those whose SUBSCRIBE the hub logged as failed; and as long as no Redis command has
  failed, it delivers exactly the channels the hub has an entry for.
\<close>

theorem process_redis_channels:
  assumes "proc_reaches env parseURL net cfg p" and "p_phase p \<in> {Serving, Draining, Cancelled}"
  shows "dom (channels (p_hub p)) \<subseteq> live (issued (p_mgr p)) \<union> subscribe_failures (hub_log (p_hub p)) \<and>
    (fault_free (issued (p_mgr p)) \<longrightarrow> live (issued (p_mgr p)) = dom (channels (p_hub p)))"
proof -
  have "redis_sync rs_held rs_single rs_faulty (p_hub p)"
    using proc_reaches_inv [OF assms(1)] assms(2) by (simp add: proc_inv_def)
  then show ?thesis by (auto simp: redis_sync_def rs_single_def rs_inv_def rs_faulty_def)
qed

theorem process_redis_channels_witness:
  "\<exists>p. demo_proc p \<and> ''news'' \<in> live (issued (p_mgr p)) \<union> subscribe_failures (hub_log (p_hub p))"
proof -
  obtain s where s: "at_rest demo_subscriber s" using demo3 by blast
  note p = demo_lift [OF s]
  have "''news'' \<in> dom (channels (g_hub s))"
    using at_rest_members(1,2) [OF s, of "''news''"] by (cases "channels (g_hub s) ''news''") auto
  with process_redis_channels [OF p] p show ?thesis
    by (intro exI [of _ "demo_process\<lparr>p_gw := s\<rparr>"]) auto
qed

text \<open>
  C9: in every reachable state the number of registered clients is within the configured
  total and, for each user, within the configured cap per user (a cap that is not positive is
  none); and no queue holds more than its capacity: 64 frames and one signal per client, and
  the hub's five queues 8, 8, 32, 32 and 256 requests.
\<close>

theorem process_bounds:
  assumes "proc_reaches env parseURL net cfg p"
  shows "(0 < MaxConnectionsTotal cfg \<longrightarrow> int (card (clients (p_hub p))) \<le> MaxConnectionsTotal cfg) \<and>
    (0 < MaxConnectionsPerUser cfg \<longrightarrow>
       (\<forall>u. int (card {c \<in> clients (p_hub p). userID (heap (p_hub p) c) = u}) \<le> MaxConnectionsPerUser cfg)) \<and>
    (\<forall>c < g_next (p_gw p). length (buf (send (heap (p_hub p) c))) \<le> 64 \<and>
       length (buf (disconnect (heap (p_hub p) c))) \<le> 1) \<and>
    length (buf (register (p_hub p))) \<le> 8 \<and> length (buf (unregister (p_hub p))) \<le> 8 \<and>
    length (buf (subscribe (p_hub p))) \<le> 32 \<and> length (buf (unsubscribe (p_hub p))) \<le> 32 \<and>
    length (buf (incoming (p_hub p))) \<le> 256"
  using proc_reaches_run_time [OF assms]
  by (auto simp: run_time_inv_def auth_inv_def gw_inv_def run_inv_def caps_ok_def owned_def bounded_def
      client_queues_ok_def hub_queues_ok_def within_def)

theorem process_bounds_witness:
  "\<exists>p. demo_proc p \<and> ''hi'' \<in> set (written (wire (p_gw p) 0)) \<and> int (card (clients (p_hub p))) \<le> 50000"
proof -
  obtain p where p: "demo_proc p" "''hi'' \<in> set (written (wire (p_gw p) 0))" using demo_written by blast
  with process_bounds [OF p(1)] show ?thesis by (auto simp: sample_config_def)
qed

section \<open>Panics\<close>

text \<open>
  C3: from any state the process can reach, shutdown included, no step panics if the ping
  interval is positive, and the state it leads to is one of those the invariant describes: the
  hub's tables exact and its caps kept, and, until the subscriber is closed, no channel held in
  Redis that the hub has no entry for.
\<close>

theorem process_never_panics:
  assumes "proc_reaches env parseURL net cfg p" and "0 < PingInterval cfg" and "proc_step net (NewAuthenticator cfg) p r"
  shows "\<exists>p'. r = Inr p' \<and> proc_reaches env parseURL net cfg p' \<and>
    (\<forall>ch. channels (p_hub p') ch = idx (members (p_hub p') ch)) \<and> caps_ok (p_hub p') \<and>
    (p_phase p' \<in> {Serving, Draining, Cancelled} \<longrightarrow> rs_held (p_mgr p') \<subseteq> dom (channels (p_hub p')))"
proof -
  obtain p' where p': "r = Inr p'"
    using proc_step_inv [OF assms(3) proc_reaches_inv [OF assms(1)]] assms(2) by (auto simp: go_ok_Inr)
  then have reached: "proc_reaches env parseURL net cfg p'"
    using proc_reaches_step [OF assms(1)] assms(3) by (simp add: proc_next_def)
  note inv = proc_reaches_inv [OF reached]
  have "run_inv (p_hub p')" using proc_inv_gw [OF inv] by (simp add: gw_inv_def)
  moreover have "p_phase p' \<in> {Serving, Draining, Cancelled} \<longrightarrow> redis_sync rs_held rs_single rs_faulty (p_hub p')"
    using inv by (simp add: proc_inv_def)
  ultimately show ?thesis using p' reached by (auto simp: run_inv_def hub_inv_members redis_sync_def)
qed

theorem process_never_panics_witness:
  "proc_reaches sample_env (\<lambda>_. None) no_faults sample_config (begin_shutdown demo_process)"
  using process_never_panics [OF demo_process_reached _ proc_signal, of no_faults]
  by (auto simp: sample_config_def Second_def)

section \<open>Order of delivery\<close>

text \<open>
  C5: in every reachable state what a client has been sent or is queued to be sent is a
  mixture of error frames and of payloads of messages published on channels Django allowed
  it, these in the order in which they were published and each at most once per publication.
\<close>

theorem delivery_in_order:
  assumes "proc_reaches env parseURL net cfg p" and "c < g_next (p_gw p)"
  shows "\<exists>xs es. written (wire (p_gw p) c) @ buf (send (heap (p_hub p) c)) \<in> shuffles xs es \<and>
    subseq xs (map Payload (filter (granted (heap (p_hub p) c)) (published (p_gw p)))) \<and>
    (\<forall>e \<in> set es. is_error_frame e)"
proof -
  have "order_inv (p_gw p)" using proc_reaches_run_time [OF assms(1)] by (simp add: run_time_inv_def)
  from stream_in_order [OF this assms(2)] show ?thesis by (simp add: stream_of_def)
qed

theorem delivery_in_order_witness:
  "\<exists>p xs es. demo_proc p \<and> ''hi'' \<in> set (written (wire (p_gw p) 0)) \<and>
     written (wire (p_gw p) 0) @ buf (send (heap (p_hub p) 0)) \<in> shuffles xs es \<and>
     (\<forall>e \<in> set es. is_error_frame e)"
proof -
  obtain p where p: "demo_proc p" "g_next (p_gw p) = 1" "''hi'' \<in> set (written (wire (p_gw p) 0))"
    using demo_written by blast
  from delivery_in_order [OF p(1), of 0] p show ?thesis by auto
qed

text \<open>
  From a reachable state on, whatever happens, what a client has been sent and is queued
  to be sent is only ever extended at its end: what was queued is written before anything
  queued later, and nothing is lost from the queue, repeated or reordered.
\<close>

theorem delivery_fifo:
  assumes "proc_reaches env parseURL net cfg p" and "c < g_next (p_gw p)" and "(proc_next net a)^** p p'"
  shows "prefix (written (wire (p_gw p) c) @ buf (send (heap (p_hub p) c)))
    (written (wire (p_gw p') c) @ buf (send (heap (p_hub p') c)))"
proof -
  have "c < g_next (p_gw p') \<and> prefix (stream_of (p_gw p) c) (stream_of (p_gw p') c)"
  proof (rule proc_keeps [OF assms(3) proc_reaches_inv [OF assms(1)],
        where Q = "\<lambda>s. c < g_next s \<and> prefix (stream_of (p_gw p) c) (stream_of s c)"])
    fix s s'
    assume inv: "gw_inv cfg s" and st: "gw_step (Some (redisManager net)) a s (Inr s')"
      and Q: "c < g_next s \<and> prefix (stream_of (p_gw p) c) (stream_of s c)"
    from stream_step_mono [OF gw_step_stream [OF st inv], of c] Q
    show "c < g_next s' \<and> prefix (stream_of (p_gw p) c) (stream_of s' c)" by (auto intro: prefix_order.order_trans)
  qed (use assms(2) in \<open>simp_all add: stream_of_def\<close>)
  then show ?thesis by (simp add: stream_of_def)
qed

theorem delivery_fifo_witness:
  "\<exists>p p'. demo_proc p \<and> (proc_next no_faults demo_a)^** p p' \<and> ''hi'' \<in> set (written (wire (p_gw p') 0)) \<and>
     prefix (written (wire (p_gw p) 0) @ buf (send (heap (p_hub p) 0)))
       (written (wire (p_gw p') 0) @ buf (send (heap (p_hub p') 0)))"
proof -
  obtain s where s: "at_rest demo_subscriber s" using demo3 by blast
  let ?p = "demo_process\<lparr>p_gw := s\<rparr>"
  obtain p' where p': "(proc_next no_faults demo_a)^** ?p p'" "''hi'' \<in> set (written (wire (p_gw p') 0))"
    using demo_delivers [OF s] by blast
  have p: "demo_proc ?p" by (rule demo_lift [OF s])
  have "g_next s = 1" using s by (simp add: at_rest_def)
  with delivery_fifo [OF p _ p'(1), of 0] p p' show ?thesis by (intro exI [of _ ?p] exI [of _ p']) simp
qed

text \<open>
  C16: nothing waits in vain: in every reachable state in which the hub runs and a client's write
  pump has not ended, goroutines of the process can take turns that write to the connection, in
  this order, all that is queued for the client and the payload of every message waiting for the
  hub on a channel the client is subscribed to.
\<close>

theorem delivery_possible:
  assumes "proc_reaches env parseURL net cfg p" and "p_phase p \<noteq> Exited" and "hub_live (p_gw p)"
    and "c \<in> writing (p_gw p)"
  shows "\<exists>p'. (proc_next net a)^** p p' \<and> p_phase p' = p_phase p \<and>
    written (wire (p_gw p') c) = written (wire (p_gw p) c) @ buf (send (heap (p_hub p) c)) @
      map Payload (filter (\<lambda>m. \<not> is_control (Channel m) \<and> c \<in> clients (p_hub p) \<and>
        Channel m \<in> subscribed (heap (p_hub p) c)) (to_handle (p_gw p)))"
proof -
  let ?mgr = "Some (redisManager net)"
  have "gw_inv cfg (p_gw p) \<and> bounded (p_gw p)"
    using proc_reaches_run_time [OF assms(1)] run_time_inv_gw by (auto simp: run_time_inv_def)
  from delivery [OF this assms(3,4), of ?mgr a] obtain s where
    s: "(gw_next_state ?mgr a)^** (p_gw p) s" "unmoved (p_gw p) s"
    "written (wire s c) = written (wire (p_gw p) c) @ buf (send (heap (p_hub p) c)) @
       map Payload (filter (gets (p_hub p) c) (to_handle (p_gw p)))"
    by blast
  have "hub_live s" "published s = published (p_gw p)" using s(2) assms(3) by (simp_all add: unmoved_def)
  moreover have "gets (p_hub p) c = (\<lambda>m. \<not> is_control (Channel m) \<and> c \<in> clients (p_hub p) \<and>
      Channel m \<in> subscribed (heap (p_hub p) c))"
    by (simp add: gets_def members_def fun_eq_iff)
  ultimately show ?thesis
    using proc_run_of_gateway [OF s(1) _ _ refl assms(2)] s(3) by (intro exI [of _ "p\<lparr>p_gw := s\<rparr>"]) simp
qed

theorem delivery_possible_witness:
  "\<exists>p p'. demo_proc p \<and> (proc_next no_faults demo_a)^** p p' \<and> to_handle (p_gw p) = [\<lparr>Channel = ''news'', Payload = ''hi''\<rparr>] \<and>
     written (wire (p_gw p') 0) = written (wire (p_gw p) 0) @ [''hi'']"
proof -
  obtain s where s: "at_rest demo_subscriber s" using demo3 by blast
  have k: "heap (g_hub s) 0 = demo_subscriber" "0 \<in> writing s" "clients (g_hub s) = {0}" "hub_live s"
    using s by (simp_all add: at_rest_def)
  let ?p = "hearing demo_news s"
  have p: "demo_proc ?p" using demo_hears(2) [OF s] by simp
  have q: "to_handle (p_gw ?p) = [demo_news]"
    using s by (simp add: to_handle_def at_rest_def idle_def buf_offer has_room_def)
  have "\<not> is_control ''news''" by (simp add: is_control_def)
  then obtain p' where "(proc_next no_faults demo_a)^** ?p p'"
    "written (wire (p_gw p') 0) = written (wire (p_gw ?p) 0) @ [''hi'']"
    using delivery_possible [OF p, of 0 demo_a] k q by (auto simp: demo_client_queues)
  with p q show ?thesis by (intro exI [of _ ?p] exI [of _ p']) simp
qed

section \<open>Revocation\<close>

lemma signal_stays:
  assumes "(proc_next net a)^** p p'" and "proc_inv cfg p" and "c < g_next (p_gw p)" and "signalled d (p_gw p) c"
  shows "c < g_next (p_gw p') \<and> (signalled d (p_gw p') c \<or> c \<notin> writing (p_gw p'))"
proof (rule proc_keeps [OF assms(1,2), where Q = "\<lambda>s. c < g_next s \<and> (signalled d s c \<or> c \<notin> writing s)"])
  show "c < g_next s' \<and> (signalled d s' c \<or> c \<notin> writing s')"
    if "gw_inv cfg s" "gw_step (Some (redisManager net)) a s (Inr s')" "c < g_next s \<and> (signalled d s c \<or> c \<notin> writing s)"
    for s s'
    using that signalled_step [OF that(2,1)] pump_over_step [OF that(2)]
      stream_step_mono [OF gw_step_stream [OF that(2,1)], of c] by blast
qed (use assms(3,4) in \<open>simp_all add: signalled_def\<close>)

lemma silent_after:
  assumes "(proc_next net a)^** p p'" and "proc_inv cfg p" and "c < g_next (p_gw p)" and "c \<notin> writing (p_gw p)"
  shows "c \<notin> writing (p_gw p') \<and> talk (p_gw p') c = talk (p_gw p) c"
proof -
  have "c < g_next (p_gw p') \<and> c \<notin> writing (p_gw p') \<and> talk (p_gw p') c = talk (p_gw p) c"
  proof (rule proc_keeps [OF assms(1,2), where Q = "\<lambda>s. c < g_next s \<and> c \<notin> writing s \<and> talk s c = talk (p_gw p) c"])
    show "c < g_next s' \<and> c \<notin> writing s' \<and> talk s' c = talk (p_gw p) c"
      if "gw_step (Some (redisManager net)) a s (Inr s')" "c < g_next s \<and> c \<notin> writing s \<and> talk s c = talk (p_gw p) c"
      for s s'
      using that(2) pump_over_step [OF that(1)] by simp
  qed (use assms(3,4) in \<open>simp_all add: talk_def\<close>)
  then show ?thesis by simp
qed

lemma signal_closes:
  assumes "signalled d (p_gw p) c" and "Code d \<noteq> 0" and "p_phase p \<noteq> Exited"
  shows "\<exists>p'. proc_next net a p p' \<and> c \<notin> writing (p_gw p') \<and>
    wire (p_gw p') c = wire (p_gw p) c @ [ConnClose (Code d) (Reason d)]"
proof -
  obtain s where s: "gw_next_state (Some (redisManager net)) a (p_gw p) s" "c \<notin> writing s"
    "hub_live s = hub_live (p_gw p)" "published s = published (p_gw p)" "wire s c = wire (p_gw p) c @ [ConnClose (Code d) (Reason d)]"
    using signalled_closes [OF assms(1,2)] by blast
  have "proc_next net a p (p\<lparr>p_gw := s\<rparr>)"
    using proc_gateway [OF assms(3), of net a "Inr s"] s(1,3,4) by (simp add: proc_next_def gw_next_state_def)
  with s(2,5) show ?thesis by (intro exI [of _ "p\<lparr>p_gw := s\<rparr>"]) simp
qed



section \<open>The health probe\<close>

definition ping_results :: "redis_history \<Rightarrow> go_error option list" where
  "ping_results h = map snd (filter (\<lambda>c. fst c = PING) h)"

definition probe_reply :: "go_error option \<Rightarrow> http_reply" where
  "probe_reply e = (case e of None \<Rightarrow> \<lparr>hr_status = 200, hr_body = ''ok''\<rparr> | Some _ \<Rightarrow> http_Error ''redis unreachable'' 503)"

lemma ping_results_simps [simp]:
  "ping_results [] = []" "ping_results (h @ g) = ping_results h @ ping_results g"
  "ping_results ((PING, e) # h) = e # ping_results h" "c \<noteq> PING \<Longrightarrow> ping_results ((c, e) # h) = ping_results h"
  by (simp_all add: ping_results_def)

lemma ping_results_subscriber:
  "ping_results (issued (fst (rs_Subscribe net ch m))) = ping_results (issued m)"
  "ping_results (issued (fst (rs_Unsubscribe net ch m))) = ping_results (issued m)"
  "ping_results (issued (fst (rs_Close net m))) = ping_results (issued m)"
  by (auto simp: rs_Subscribe_def rs_Unsubscribe_def rs_Close_def issue_def Let_def split: option.split)

definition probes_inv :: "process \<Rightarrow> bool" where
  "probes_inv p \<longleftrightarrow> filter (\<lambda>r. r \<noteq> http_Error ''shutting down'' 503) (probes p) =
     map probe_reply (ping_results (issued (p_mgr p)))"

lemma probes_inv_step:
  assumes "proc_next net a p p'" and inv: "proc_inv cfg p" and probes: "probes_inv p"
  shows "probes_inv p'"
  using assms(1) unfolding proc_next_def
proof (cases rule: proc_nextE)
  case (gateway r)
  then obtain s where s: "gw_step (Some (redisManager net)) a (p_gw p) (Inr s)" "p' = p\<lparr>p_gw := s\<rparr>"
    by (auto simp: go_bind_eq_Inr dest!: sym [of "Inr p'"])
  have "ping_results (issued (manager (g_hub s))) = ping_results (issued (p_mgr p))"
    using gw_step_manager [of "redisManager net" a "p_gw p" s cfg
        "\<lambda>m. ping_results (issued m) = ping_results (issued (p_mgr p))", OF s(1) proc_inv_gw [OF inv] refl]
    by (simp add: redisManager_def ping_results_subscriber)
  with probes s(2) show ?thesis by (simp add: probes_inv_def)
next
  case (probe m reply meth path)
  then show ?thesis
    using probes
    by (auto simp: probes_inv_def HealthzHandler_def rs_Ping_def issue_def Let_def probe_reply_def http_Error_def
        split: if_splits option.splits prod.splits)
qed (use probes in \<open>auto simp: probes_inv_def main_logs_def main_note_def ping_results_subscriber dest!: message_handed\<close>)



section \<open>The log\<close>

text \<open>What \<open>main\<close> and the upgrade handlers write: nothing of a session but its fingerprint.\<close>

definition main_record :: "config \<Rightarrow> log_rec \<Rightarrow> bool" where
  "main_record cfg r \<longleftrightarrow> LogLevel cfg \<le> lvl r \<and>
     (attrs r = [] \<or> attrs r = [(''addr'', LString (ListenAddr cfg))] \<or> (\<exists>e. attrs r = [(''err'', LError e)]) \<or>
      (\<exists>sid. logged_strings [r] \<subseteq> {DjangoAuthURL cfg, sessionHash sid, ''transport'', ''read_body'', ''json''}))"

lemma wsHandler_records:
  assumes "wsHandler cfg (Validate newRequest roundTrip (NewAuthenticator cfg)) accept r = (l, out)" and "x \<in> set l"
    and "LogLevel cfg \<le> lvl x"
  shows "main_record cfg x"
proof -
  let ?a = "NewAuthenticator cfg"
  have pub: "logged_strings [x] \<subseteq> auth_public ?a v" if "x \<in> set (fst (Validate newRequest roundTrip ?a v))" for v
  proof -
    have "logged_strings [x] \<subseteq> logged_strings (fst (Validate newRequest roundTrip ?a v))"
      using that by (auto simp: logged_strings_def)
    then show ?thesis using django.validate_public [of newRequest roundTrip ?a v] by blast
  qed
  have v: "main_record cfg x" if "x \<in> set (fst (Validate newRequest roundTrip ?a v))" for v
  proof -
    have "auth_public ?a v = {DjangoAuthURL cfg, sessionHash v, ''transport'', ''read_body'', ''json''}"
      by (simp add: auth_public_def NewAuthenticator_def Let_def)
    with pub [OF that] show ?thesis using assms(3) unfolding main_record_def by metis
  qed
  then have "main_record cfg x" if "Validate newRequest roundTrip ?a v = (k, res)" "x \<in> set k" for v k res
    using that by (metis fst_conv)
  then show ?thesis
    using assms by (auto simp: wsHandler_def main_record_def split: if_splits option.splits prod.splits sum.splits)
qed

lemma proc_step_main_log:
  assumes "proc_next net (NewAuthenticator cfg) p p'" and "hub_cfg (p_hub p) = cfg"
  shows "\<exists>rs. main_log p' = main_log p @ rs \<and> list_all (main_record cfg) rs"
  using assms(1) unfolding proc_next_def
proof (cases rule: proc_nextE)
  case (refused r newRequest roundTrip accept l out)
  have "main_record cfg x" if "x \<in> set l" "LogLevel cfg \<le> lvl x" for x
    using wsHandler_records [OF _ that] refused(4) assms(2) by simp
  with refused(1) assms(2) show ?thesis by (auto simp: main_logs_def setupLogger_def list_all_iff)
qed (use assms(2) in \<open>auto simp: go_bind_eq_Inr main_note_def main_logs_def setupLogger_def main_record_def
    begin_shutdown_def close_manager_def set_mgr_def dest!: sym [of "Inr p'"]\<close>)

lemma proc_reaches_main_log:
  assumes "proc_reaches env parseURL net cfg p"
  shows "list_all (main_record cfg) (main_log p)"
  using assms
proof (induction rule: proc_reaches_induct)
  case (step y z)
  have "hub_cfg (p_hub y) = cfg" using proc_inv_gw [OF step(1)] by (simp add: gw_inv_def)
  with proc_step_main_log [OF step(2)] step(3) show ?case by auto
qed simp

text \<open>
  C39: in every reachable state each record of the hub's log is about one accepted client, and
  carries its connection id, its user and a fixed reason, or tells of a failed Redis command on a
  channel such a client may hold, or of a malformed message that was published on a control
  channel, and carries the name of the channel; each record of a connection's pumps carries its
  connection id and at most an error of the connection or the unknown action the peer asked for; and
  what \<open>main\<close> and the upgrade handlers log is at or above the configured level and tells of a session
  at most its fingerprint.
\<close>

theorem process_logs:
  assumes "proc_reaches env parseURL net cfg p"
  shows "(\<forall>r \<in> set (hub_log (p_hub p)).
      (\<exists>c < g_next (p_gw p). client_record (heap (p_hub p) c) r \<or> redis_record (heap (p_hub p) c) r) \<or>
      (\<exists>m \<in> set (published (p_gw p)). control_record m r)) \<and>
    (\<forall>c < g_next (p_gw p). \<forall>r. PumpLog r \<in> set (wire (p_gw p) c) \<longrightarrow> pump_record (connectionID (heap (p_hub p) c)) r) \<and>
    (\<forall>r \<in> set (main_log p). main_record cfg r)"
  using proc_reaches_run_time [OF assms] proc_reaches_main_log [OF assms]
  by (auto simp: run_time_inv_def logs_inv_def list_all_iff hub_record_def intro: wire_inv_pump_log)

theorem process_logs_witness:
  "\<exists>p r. demo_proc p \<and> r \<in> set (main_log p) \<and> msg r = ''shutdown initiated'' \<and> main_record sample_config r"
proof -
  let ?p = "begin_shutdown demo_process" and ?r = "log_entry LevelInfo ''shutdown initiated'' []"
  have p: "demo_proc ?p" using proc_reaches_step [OF demo_process_reached] proc_signal by (simp add: proc_next_def)
  have "?r \<in> set (main_log ?p)"
    by (simp add: begin_shutdown_def main_note_def main_logs_def setupLogger_def sample_config_def less_eq_log_level_def)
  with p process_logs [OF p] show ?thesis by (intro exI [of _ ?p] exI [of _ ?r]) auto
qed

section \<open>The end of the process\<close>

lemma healthz_shutting_down: "HealthzHandler net True m = (m, http_Error ''shutting down'' 503)"
  by (simp add: HealthzHandler_def)

lemma shutdown_probe_step:
  assumes "proc_next net a p p'" and "proc_inv cfg p" and "p_phase p \<noteq> Serving"
  shows "\<exists>rs. probes p' = probes p @ rs \<and> (\<forall>r \<in> set rs. r = http_Error ''shutting down'' 503)"
  using assms(1) unfolding proc_next_def
proof (cases rule: proc_nextE)
  case (probe m reply)
  have "shuttingDown p" using assms(2,3) by (simp add: proc_inv_def)
  then have "reply = http_Error ''shutting down'' 503" using probe(3) by (simp add: healthz_shutting_down)
  then show ?thesis using probe(1) by simp
qed (auto simp: go_bind_eq_Inr dest!: sym [of "Inr p'"])



lemma closed_step:
  assumes "proc_next net a p p'" and "proc_inv cfg p" and "p_phase p \<in> {Closed, Exited}"
  shows "p_mgr p' = p_mgr p"
  using assms(1) unfolding proc_next_def
proof (cases rule: proc_nextE)
  case (gateway r)
  have "gw_inv cfg (p_gw p)" "rs_closed (p_mgr p)"
    using proc_inv_gw [OF assms(2)] assms(2,3) by (auto simp: proc_inv_def)
  then show ?thesis using gateway closed_manager_step by (auto simp: go_bind_eq_Inr dest!: sym [of "Inr p'"])
next
  case (probe m reply)
  have "shuttingDown p" using assms(2,3) by (auto simp: proc_inv_def)
  then show ?thesis using probe Healthz_manager [OF probe(3)] by (simp add: set_mgr_def)
qed (use assms(3) in \<open>auto dest!: message_handed\<close>)


lemma phase_steps:
  "p_phase p = Draining \<Longrightarrow> proc_next net a p (p\<lparr>p_phase := Cancelled\<rparr>)"
  "p_phase p = Cancelled \<Longrightarrow> proc_next net a p (close_manager net p)"
  "p_phase p = Closed \<Longrightarrow> proc_next net a p (p\<lparr>p_phase := Exited\<rparr>)"
  by (simp_all add: proc_next_def proc_shutdown proc_close proc_exit)

lemma exits_within:
  "p_phase p \<noteq> Serving \<Longrightarrow>
     \<exists>p'. (proc_next net a ^^ (4 - rank (p_phase p))) p p' \<and> p_phase p' = Exited"
proof (cases "p_phase p")
  case Draining
  let ?q = "close_manager net (p\<lparr>p_phase := Cancelled\<rparr>)"
  have "proc_next net a p (p\<lparr>p_phase := Cancelled\<rparr>)" "proc_next net a (p\<lparr>p_phase := Cancelled\<rparr>) ?q"
    "proc_next net a ?q (?q\<lparr>p_phase := Exited\<rparr>)"
    using Draining by (simp_all add: phase_steps)
  then have "(proc_next net a ^^ 3) p (?q\<lparr>p_phase := Exited\<rparr>)" by (auto simp: numeral_3_eq_3)
  with Draining show ?thesis by (auto intro: exI [of _ "?q\<lparr>p_phase := Exited\<rparr>"])
next
  case Cancelled
  let ?q = "close_manager net p"
  have "proc_next net a p ?q" "proc_next net a ?q (?q\<lparr>p_phase := Exited\<rparr>)"
    using Cancelled by (simp_all add: phase_steps)
  then have "(proc_next net a ^^ 2) p (?q\<lparr>p_phase := Exited\<rparr>)" by (auto simp: numeral_2_eq_2)
  with Cancelled show ?thesis by (auto intro: exI [of _ "?q\<lparr>p_phase := Exited\<rparr>"])
next
  case Closed
  have "proc_next net a p (p\<lparr>p_phase := Exited\<rparr>)" by (rule phase_steps) (rule Closed)
  with Closed show ?thesis by (auto intro: exI [of _ "p\<lparr>p_phase := Exited\<rparr>"])
qed auto


lemma shutdown_run: "\<exists>q. (proc_next no_faults demo_a)^** demo_process q \<and> p_phase q = Exited"
proof -
  have "p_phase (begin_shutdown demo_process) \<noteq> Serving" by simp
  from exits_within [OF this] obtain q where
    q: "(proc_next no_faults demo_a ^^ (4 - rank (p_phase (begin_shutdown demo_process)))) (begin_shutdown demo_process) q"
    "p_phase q = Exited"
    by blast
  have "proc_next no_faults demo_a demo_process (begin_shutdown demo_process)" by (simp add: proc_next_def proc_signal)
  with relpowp_imp_rtranclp [OF q(1)] q(2) show ?thesis by (meson converse_rtranclp_into_rtranclp)
qed



end
