(* ===== verification/ProcessRedis.thy ===== *)
theory ProcessRedis
  imports ProcessProps
begin

text \<open>
  The way of a message from Redis to the hub over whole runs of the process: the channels the
  process asks Redis for, the messages the pub/sub connection hands the read loop, and those the
  loop has handed the hub.
\<close>

section \<open>The way of a message\<close>

definition message_of :: "string \<times> bytes \<Rightarrow> incomingMessage" where
  "message_of m = \<lparr>Channel = fst m, Payload = snd m\<rparr>"

lemma read_turn_message: "deliver r = Some d \<Longrightarrow> read_turn r m = Some (d, message_of m)"
  by (simp add: read_turn_def message_of_def)

text \<open>A channel some client the process has accepted may be subscribed to.\<close>

definition wanted :: "'m gateway \<Rightarrow> string \<Rightarrow> bool" where
  "wanted s ch \<longleftrightarrow> (\<exists>c < g_next s. may_hold (heap (g_hub s) c) ch)"

text \<open>
  One read loop runs, with a callback; what it has handed over and what is in flight is what it was
  sent; what it was sent was asked for; and what was asked for is wanted.
\<close>

definition listens :: "process \<Rightarrow> bool" where
  "listens p \<longleftrightarrow> deliver (p_mgr p) = Some () \<and> read_loops (p_mgr p) = 1 \<and>
     map message_of (heard p) = published (p_gw p) @ map message_of (inflight p) \<and>
     fst ` set (heard p) \<subseteq> asked_for (issued (p_mgr p)) \<and>
     (\<forall>ch \<in> asked_for (issued (p_mgr p)). wanted (p_gw p) ch)"

section \<open>What the steps keep\<close>

lemma same_id_may_hold: "same_id k k' \<Longrightarrow> may_hold k' = may_hold k"
  by (simp add: same_id_def may_hold_def control_channels_def fun_eq_iff)

lemma wanted_mono:
  assumes "gw_step mgr a s (Inr s')" and "gw_inv cfg s" and "wanted s ch"
  shows "wanted s' ch"
proof -
  obtain c where c: "c < g_next s" "may_hold (heap (g_hub s) c) ch" using assms(3) by (auto simp: wanted_def)
  have "g_next s \<le> g_next s'" "same_id (heap (g_hub s) c) (heap (g_hub s') c)"
    using gw_step_stream [OF assms(1,2)] c(1) by (auto simp: stream_step_def stream_grows_def)
  with c show ?thesis unfolding wanted_def by (metis order_less_le_trans same_id_may_hold)
qed

lemma wanted_manager [simp]: "wanted (s\<lparr>g_hub := (g_hub s)\<lparr>manager := m\<rparr>\<rparr>) = wanted s"
  by (simp add: wanted_def fun_eq_iff)

lemma asked_Subscribe:
  "asked_for (issued r) \<subseteq> asked_for (issued (fst (Subscribe (redisManager net) ch r)))"
  "asked_for (issued (fst (Subscribe (redisManager net) ch r))) \<subseteq> insert ch (asked_for (issued r))"
  by (auto simp: redisManager_def rs_Subscribe_def issue_def Let_def split: option.splits)

lemma asked_Unsubscribe [simp]:
  "asked_for (issued (fst (Unsubscribe (redisManager net) ch r))) = asked_for (issued r)"
  by (auto simp: redisManager_def rs_Unsubscribe_def issue_def Let_def split: option.split prod.split)

text \<open>What the goroutines do to the subscriber.\<close>

lemma gw_step_asks:
  fixes s :: "unit redisSubscriber gateway"
  assumes step: "gw_step (Some (redisManager net)) a s (Inr s')" and inv: "gw_inv cfg s"
  shows "deliver (manager (g_hub s')) = deliver (manager (g_hub s))"
    and "read_loops (manager (g_hub s')) = read_loops (manager (g_hub s))"
    and "asked_for (issued (manager (g_hub s))) \<subseteq> asked_for (issued (manager (g_hub s')))"
    and "asked_for (issued (manager (g_hub s'))) \<subseteq> asked_for (issued (manager (g_hub s))) \<union> {ch. wanted s ch}"
proof -
  let ?m = "manager (g_hub s)"
  note mgr = gw_step_manager [OF step inv]
  show "deliver (manager (g_hub s')) = deliver ?m" by (rule mgr [where P = "\<lambda>m. deliver m = deliver ?m"]) simp_all
  show "read_loops (manager (g_hub s')) = read_loops ?m"
    by (rule mgr [where P = "\<lambda>m. read_loops m = read_loops ?m"]) simp_all
  show "asked_for (issued ?m) \<subseteq> asked_for (issued (manager (g_hub s')))"
    by (rule mgr [where P = "\<lambda>m. asked_for (issued ?m) \<subseteq> asked_for (issued m)"])
       (simp_all add: subset_trans [OF _ asked_Subscribe(1)])
  show "asked_for (issued (manager (g_hub s'))) \<subseteq> asked_for (issued ?m) \<union> {ch. wanted s ch}"
  proof (rule mgr [where P = "\<lambda>m. asked_for (issued m) \<subseteq> asked_for (issued ?m) \<union> {ch. wanted s ch}"])
    fix c ch and m :: "unit redisSubscriber"
    assume "c < g_next s" "may_hold (heap (g_hub s) c) ch" and m: "asked_for (issued m) \<subseteq> asked_for (issued ?m) \<union> {ch. wanted s ch}"
    then have "wanted s ch" by (auto simp: wanted_def)
    with m asked_Subscribe(2) [of net ch m]
    show "asked_for (issued (fst (Subscribe (redisManager net) ch m))) \<subseteq> asked_for (issued ?m) \<union> {ch. wanted s ch}"
      by blast
  qed simp_all
qed

lemma listens_gateway:
  assumes step: "gw_step (Some (redisManager net)) a (p_gw p) (Inr s)" and inv: "gw_inv cfg (p_gw p)"
    and l: "listens p" and p': "p_gw p' = s" "heard p' = heard p"
    and rest: "published s @ map message_of (inflight p') = published (p_gw p) @ map message_of (inflight p)"
  shows "listens p'"
proof -
  have "wanted s ch" if "ch \<in> asked_for (issued (manager (g_hub s)))" for ch
    using that gw_step_asks(4) [OF step inv] wanted_mono [OF step inv] l by (auto simp: listens_def)
  with gw_step_asks(1-3) [OF step inv] l rest show ?thesis unfolding listens_def p' by auto
qed

text \<open>A change of the subscriber that asks Redis for no channel.\<close>

lemma listens_manager:
  assumes "listens p" and "p_gw p' = (p_gw p)\<lparr>g_hub := (p_hub p)\<lparr>manager := m\<rparr>\<rparr>"
    and "deliver m = deliver (p_mgr p)" and "read_loops m = read_loops (p_mgr p)"
    and "asked_for (issued m) = asked_for (issued (p_mgr p))" and "inflight p' = inflight p" and "heard p' = heard p"
  shows "listens p'"
  using assms by (simp add: listens_def)

lemma listens_step:
  assumes "proc_next net a p p'" and inv: "proc_inv cfg p" and l: "listens p"
  shows "listens p'"
  using assms(1) unfolding proc_next_def
proof (cases rule: proc_nextE)
  case (gateway r)
  then obtain s where s: "gw_step (Some (redisManager net)) a (p_gw p) (Inr s)" "published s = published (p_gw p)"
    "p' = p\<lparr>p_gw := s\<rparr>"
    by (auto simp: go_bind_eq_Inr dest!: sym [of "Inr p'"])
  show ?thesis by (rule listens_gateway [OF s(1) proc_inv_gw [OF inv] l]) (simp_all add: s(2,3))
next
  case (redis ch b)
  then show ?thesis using l by (auto simp: listens_def)
next
  case (message m ms x s)
  have "x = message_of m" using message(5) l by (simp add: listens_def read_turn_message)
  then show ?thesis
    using message(1,4,7) by (intro listens_gateway [OF message(6) proc_inv_gw [OF inv] l]) simp_all
next
  case (unheard m ms)
  then show ?thesis using l by (simp add: listens_def read_turn_message)
next
  case (probe m reply)
  then show ?thesis
    using Healthz_manager [OF probe(3)]
    by (intro listens_manager [OF l, of _ m]) (simp_all add: set_mgr_def rs_Ping_def issue_def Let_def)
next
  case close
  then show ?thesis
    by (intro listens_manager [OF l, of _ "fst (rs_Close net (p_mgr p))"])
       (simp_all add: close_manager_def set_mgr_def rs_Close_def issue_def Let_def)
qed (use l in \<open>simp_all add: listens_def begin_shutdown_def main_note_def main_logs_def\<close>)

lemma proc_reaches_listens: "proc_reaches env parseURL net cfg p \<Longrightarrow> listens p"
proof (induction rule: proc_reaches_induct)
  case (start p0)
  then show ?case by (simp add: listens_def gw_start_def NewHub_def)
qed (rule listens_step)

lemma listens_heard:
  assumes "listens p" and "m \<in> set (published (p_gw p))"
  shows "Channel m \<in> asked_for (issued (p_mgr p))"
proof -
  have "m \<in> set (map message_of (heard p))" using assms by (simp add: listens_def del: set_map)
  then have "Channel m \<in> fst ` set (heard p)" by (force simp: message_of_def)
  then show ?thesis using assms(1) by (auto simp: listens_def)
qed

section \<open>Nothing unasked\<close>

text \<open>What is wanted, Django has granted.\<close>

lemma wanted_granted:
  assumes "auth_inv cfg s" and "wanted s ch"
  shows "\<exists>c < g_next s. \<exists>r resp. handshake s c = Some (r, resp) \<and> lets_in cfg r resp (heap (g_hub s) c) \<and>
    (ch \<in> control_channels (heap (g_hub s) c) \<or> ch \<in> allowedChannels (heap (g_hub s) c) \<and> valid_channel ch)"
proof -
  obtain c where c: "c < g_next s" "may_hold (heap (g_hub s) c) ch" using assms(2) by (auto simp: wanted_def)
  moreover have "admitted cfg s c" using assms(1) c(1) by (simp add: auth_inv_def)
  ultimately show ?thesis unfolding admitted_def may_hold_def valid_channel_def by blast
qed

text \<open>
  C8: in every reachable state exactly one read loop runs, with the hub's callback; the messages
  the hub has been handed are the ones the pub/sub connection has yielded so far, unchanged and in
  their order, but for those still in flight; and each channel on which the hub has been handed a
  message, and each for which Redis has ever been sent a SUBSCRIBE, is a control channel of a client
  the process let in, or a channel with a valid name that Django's answer allows such a client.
\<close>

theorem hears_only_granted:
  assumes "proc_reaches env parseURL net cfg p"
  shows "read_loops (p_mgr p) = 1 \<and> deliver (p_mgr p) = Some () \<and>
    map message_of (heard p) = published (p_gw p) @ map message_of (inflight p) \<and>
    (\<forall>ch. ch \<in> Channel ` set (published (p_gw p)) \<or> SUBSCRIBE ch \<in> fst ` set (issued (p_mgr p)) \<longrightarrow>
       (\<exists>c < g_next (p_gw p). \<exists>r resp. handshake (p_gw p) c = Some (r, resp) \<and> lets_in cfg r resp (heap (p_hub p) c) \<and>
          (ch \<in> control_channels (heap (p_hub p) c) \<or> ch \<in> allowedChannels (heap (p_hub p) c) \<and> valid_channel ch)))"
proof -
  have l: "listens p" by (rule proc_reaches_listens [OF assms])
  have "wanted (p_gw p) ch"
    if "ch \<in> Channel ` set (published (p_gw p)) \<or> SUBSCRIBE ch \<in> fst ` set (issued (p_mgr p))" for ch
    using that listens_heard [OF l] l by (auto simp: listens_def asked_for_def)
  moreover have "auth_inv cfg (p_gw p)" using proc_reaches_run_time [OF assms] by (simp add: run_time_inv_def)
  ultimately show ?thesis using l wanted_granted unfolding listens_def by meson
qed

theorem hears_only_granted_witness:
  "\<exists>p. demo_proc p \<and> published (p_gw p) = [demo_news] \<and> inflight p = [] \<and>
     map message_of (heard p) = [demo_news] \<and>
     (\<exists>c < g_next (p_gw p). ''news'' \<in> control_channels (heap (p_hub p) c) \<or> ''news'' \<in> allowedChannels (heap (p_hub p) c))"
proof -
  obtain s where s: "at_rest demo_subscriber s" using demo3 by blast
  let ?p = "hearing demo_news s"
  have p: "demo_proc ?p" using demo_hears(2) [OF s] by simp
  have q: "published (p_gw ?p) = [demo_news]" using s by (simp add: at_rest_def)
  from hears_only_granted [OF p] p q show ?thesis by (intro exI [of _ ?p]) auto
qed

end
