(* ===== verification/ProcessConns.thy ===== *)
theory ProcessConns
  imports ProcessProps
begin

text \<open>
  What the process does on each connection it has accepted, and how the connections are told apart.
\<close>

section \<open>The protocol of a connection\<close>



section \<open>Connection ids\<close>

text \<open>
  C32: As long as a process has accepted fewer connections than the counter has positive values, the
  connection ids of all clients it ever accepted are different, whatever the clock says, so a record
  of the log names one connection.
\<close>

theorem connection_ids_unique:
  assumes "proc_reaches env parseURL net cfg p" and "g_next (p_gw p) < 2 ^ 63"
  shows "inj_on (\<lambda>c. connectionID (heap (p_hub p) c)) {..<g_next (p_gw p)}"
proof (rule linorder_inj_onI')
  have "ids_inv (p_gw p)" using proc_reaches_run_time [OF assms(1)] by (simp add: run_time_inv_def)
  then show "connectionID (heap (p_hub p) c) \<noteq> connectionID (heap (p_hub p) d)"
    if "d \<in> {..<g_next (p_gw p)}" "c < d" for c d
    using ids_distinct [of "p_gw p" c d] that assms(2) by simp
qed

lemma demo_two: "\<exists>p. demo_proc p \<and> g_next (p_gw p) = 2"
proof -
  obtain s where s: "at_rest demo_subscriber s" using demo3 by blast
  let ?p = "demo_process\<lparr>p_gw := s\<rparr>"
  have p: "demo_proc ?p" by (rule demo_lift [OF s])
  have h: "hub_cfg (g_hub s) = sample_config" using proc_inv_gw [OF proc_reaches_inv [OF p]] by (simp add: gw_inv_def)
  obtain k cl where cl: "ws_client 1 2 sample_result (g_ctr s) = (k, cl)" by (cases "ws_client 1 2 sample_result (g_ctr s)")
  have up: "wsHandler (hub_cfg (g_hub s)) (Validate (\<lambda>_. None) sample_django demo_a) (\<lambda>_ _. None) sample_request =
      ([], Upgraded sample_result)"
    by (simp add: sample_upgrade h)
  have room: "has_room (register (g_hub s))" using s by (simp add: at_rest_def idle_def has_room_def)
  have ping: "0 < PingInterval (hub_cfg (g_hub s))" by (simp add: h sample_config_def Second_def)
  obtain s' where s': "gw_next_state demo_m demo_a s s'" "g_next s' = Suc (g_next s)" "hub_live s' = hub_live s"
    "published s' = published s"
    using step_connect [OF up room ping cl sample_request_route, of demo_m] by fastforce
  have "proc_next no_faults demo_a ?p (?p\<lparr>p_gw := s'\<rparr>)"
    using proc_gateway [of ?p no_faults demo_a "Inr s'"] s' s by (simp add: proc_next_def gw_next_state_def at_rest_def)
  from demo_proc_step [OF p this] s'(2) s show ?thesis
    by (intro exI [of _ "?p\<lparr>p_gw := s'\<rparr>"]) (simp add: at_rest_def)
qed

theorem connection_ids_unique_witness:
  "\<exists>p. demo_proc p \<and> g_next (p_gw p) = 2 \<and> connectionID (heap (p_hub p) 0) \<noteq> connectionID (heap (p_hub p) 1)"
proof -
  obtain p where p: "demo_proc p" "g_next (p_gw p) = 2" using demo_two by blast
  then have inj: "inj_on (\<lambda>c. connectionID (heap (p_hub p) c)) {..<2}" using connection_ids_unique [OF p(1)] by simp
  with p inj_on_eq_iff [OF inj, of 0 1] show ?thesis by (intro exI [of _ p]) simp
qed

end
