(* ===== verification/Service.thy ===== *)
theory Service
  imports ProcessProps
begin

text \<open>
  The process seen from outside: who has connected, and which clients are attached to which
  channels. The abstract service accepts newcomers and does to its desk, the broker of theory
  \<open>HubProps\<close>, one event at a time; every run of the process is a run of that service.
\<close>

section \<open>The service\<close>

text \<open>What a client keeps for life, as Django gave it.\<close>

definition badge :: "client \<Rightarrow> client" where
  "badge k = k\<lparr>send := make_chan 0, disconnect := make_chan 0, subscribed := {}, connectedAt := 0\<rparr>"

record service =
  who :: "cid \<rightharpoonup> client"
  desk :: broker

definition no_service :: service where
  "no_service = \<lparr>who = Map.empty, desk = \<lparr>attached = {}, subs = {}\<rparr>\<rparr>"

inductive service_step :: "config \<Rightarrow> service \<Rightarrow> service \<Rightarrow> bool"
  for cfg :: config where
  arrive: "who v c = None \<Longrightarrow> service_step cfg v (v\<lparr>who := (who v)(c \<mapsto> k)\<rparr>)"
| event: "(\<forall>c. e = Join c \<longrightarrow> c \<in> dom (who v)) \<Longrightarrow>
     service_step cfg v (v\<lparr>desk := broker_do cfg (\<lambda>c. the (who v c)) e (desk v)\<rparr>)"

section \<open>The process as a service\<close>

definition service_of :: "'m gateway \<Rightarrow> service" where
  "service_of s = \<lparr>who = (\<lambda>c. if c < g_next s then Some (badge (heap (g_hub s) c)) else None), desk = abs_hub (g_hub s)\<rparr>"

lemma badge_same_id: "same_id k k' \<Longrightarrow> badge k' = badge k"
  by (simp add: badge_def same_id_def)

lemma badge_fields [simp]:
  "userID (badge k) = userID k" "control_channels (badge k) = control_channels k"
  "allowedChannels (badge k) = allowedChannels k"
  by (simp_all add: badge_def control_channels_def)

lemma service_of_same:
  assumes "g_next s' = g_next s" and "clients (g_hub s') = clients (g_hub s)"
    and "\<And>c. same_id (heap (g_hub s) c) (heap (g_hub s') c)"
    and "\<And>c. subscribed (heap (g_hub s') c) = subscribed (heap (g_hub s) c)"
  shows "service_of s' = service_of s"
  using badge_same_id [OF assms(3)] assms(1,2,4) by (simp add: service_of_def abs_hub_def fun_eq_iff)

text \<open>A broker asks only who the attached clients are, and who wants to join.\<close>

lemma broker_do_cong:
  assumes "\<And>c. c \<in> attached b \<or> e = Join c \<Longrightarrow>
      userID (K' c) = userID (K c) \<and> control_channels (K' c) = control_channels (K c) \<and>
      allowedChannels (K' c) = allowedChannels (K c)"
  shows "broker_do cfg K' e b = broker_do cfg K e b"
proof (cases e)
  case (Join c)
  have "{d \<in> attached b. userID (K' d) = userID (K' c)} = {d \<in> attached b. userID (K d) = userID (K c)}"
    using assms Join by auto
  then show ?thesis using assms [of c] Join by (simp add: broker_full_def)
next
  case (Want c ch)
  then show ?thesis using assms [of c] by (cases "c \<in> attached b") simp_all
qed simp_all

lemma gw_step_service:
  assumes step: "gw_step mgr a s (Inr s')" and inv: "gw_inv cfg s"
  shows "(service_step cfg)^** (service_of s) (service_of s')"
  using step
proof cases
  case (gw_connect h c newRequest roundTrip accept rq l res nano now k cl)
  have s': "g_next s' = Suc c" "heap (g_hub s') = (heap (g_hub s))(c := cl)" "clients (g_hub s') = clients (g_hub s)"
    using gw_connect(1,2) by (auto simp: go_bind_eq_Inr dest!: sym [of "Inr s'"])
  have c: "c = g_next s" "c \<notin> clients (g_hub s)" using gw_connect(3) inv by (auto simp: gw_inv_def)
  have "abs_hub (g_hub s') = abs_hub (g_hub s)" using s'(2,3) c(2) by (auto simp: abs_hub_def split: if_splits)
  then have "service_of s' = (service_of s)\<lparr>who := (who (service_of s))(c \<mapsto> badge cl)\<rparr>"
    using s' c(1) by (auto simp: service_of_def fun_eq_iff less_Suc_eq)
  moreover have "who (service_of s) c = None" using c(1) by (simp add: service_of_def)
  ultimately have "service_step cfg (service_of s) (service_of s')" by (simp add: arrive)
  then show ?thesis by (rule r_into_rtranclp)
next
  case (gw_read h c inp es go_on h')
  have "service_of s' = service_of s"
    using gw_read posts_frame [OF gw_read(5)] by (intro service_of_same) simp_all
  then show ?thesis by simp
next
  case (gw_exit c es h')
  have "service_of s' = service_of s"
    using gw_exit posts_frame [OF gw_exit(4)] by (intro service_of_same) simp_all
  then show ?thesis by simp
next
  case (gw_spawned h c)
  have "service_of s' = service_of s" using gw_spawned by (intro service_of_same) simp_all
  then show ?thesis by simp
next
  case (gw_write h c cs k es go_on)
  have "same_client (heap h c) k" by (rule wp_recv_same [OF gw_write(4)])
  then have "service_of s' = service_of s"
    using gw_write by (intro service_of_same) (auto simp: same_client_def same_id_def)
  then show ?thesis by simp
next
  case (gw_message h m)
  have "service_of s' = service_of s" using gw_message by (intro service_of_same) simp_all
  then show ?thesis by simp
next
  case (gw_hub_turn q)
  let ?h = "g_hub s"
  have ri: "run_inv ?h" and cfg: "hub_cfg ?h = cfg" using inv by (simp_all add: gw_inv_def)
  obtain h' where h': "q = Inr h'" "s' = s\<lparr>g_hub := h'\<rparr>" using gw_hub_turn(1) by (cases q) auto
  obtain e where e: "pending e ?h" "broker_sim e ?h h'"
    using run_step_sim [OF ri gw_hub_turn(3)] h'(1) by auto
  have "serves ?h h'" using run_step_turn [OF gw_hub_turn(3) ri] h'(1) by (simp add: turn_def)
  from serves_queued [OF this] have "same_id (heap ?h c) (heap h' c)" for c by (simp add: queued_more_def)
  then have who: "who (service_of s') = who (service_of s)"
    using h'(2) badge_same_id by (simp add: service_of_def fun_eq_iff)
  have join: "c < g_next s" if "e = Join c" for c
    using e(1) that inv by (auto simp: gw_inv_def at_head_def neq_Nil_conv)
  have "c < g_next s" if "c \<in> clients ?h" for c using that inv by (auto simp: gw_inv_def)
  with join have "broker_do cfg (\<lambda>c. the (who (service_of s) c)) e (abs_hub ?h) = broker_do cfg (heap ?h) e (abs_hub ?h)"
    by (intro broker_do_cong) (auto simp: service_of_def)
  then have "desk (service_of s') = broker_do cfg (\<lambda>c. the (who (service_of s) c)) e (desk (service_of s))"
    using e(2) cfg h'(2) by (simp add: broker_sim_def service_of_def)
  with who have "service_of s' =
      (service_of s)\<lparr>desk := broker_do cfg (\<lambda>c. the (who (service_of s) c)) e (desk (service_of s))\<rparr>"
    by (cases "service_of s'") simp
  moreover have "\<forall>c. e = Join c \<longrightarrow> c \<in> dom (who (service_of s))" using join by (auto simp: service_of_def)
  ultimately show ?thesis using event [of e "service_of s" cfg] by simp
next
  case gw_cancel
  have "service_of s' = service_of s" using gw_cancel by (intro service_of_same) simp_all
  then show ?thesis by simp
qed

lemma service_of_manager [simp]: "service_of (s\<lparr>g_hub := (g_hub s)\<lparr>manager := m\<rparr>\<rparr>) = service_of s"
  by (intro service_of_same) simp_all

interpretation served: simulation
  "\<lambda>p. \<exists>env parseURL a. main_run env parseURL = Inr (a, p) \<and> Load env = Inr cfg" "proc_next net a" "proc_inv cfg"
  "\<lambda>p. service_of (p_gw p)" "service_step cfg"
  for cfg net a
proof
  show "(service_step cfg)^** (service_of (p_gw p)) (service_of (p_gw p'))"
    if "proc_inv cfg p" "proc_next net a p p'" for p p'
    using proc_next_gateway [OF that(2)] gw_step_service [OF _ proc_inv_gw [OF that(1)]]
    by (auto simp: gw_next_state_def)
qed

section \<open>What the service promises\<close>

text \<open>Its caps and its permissions, which the process inherits.\<close>

definition service_ok :: "config \<Rightarrow> service \<Rightarrow> bool" where
  "service_ok cfg v \<longleftrightarrow> attached (desk v) \<subseteq> dom (who v) \<and> finite (attached (desk v)) \<and>
     (0 < MaxConnectionsTotal cfg \<longrightarrow> int (card (attached (desk v))) \<le> MaxConnectionsTotal cfg) \<and>
     (\<forall>c ch. (c, ch) \<in> subs (desk v) \<longrightarrow> c \<in> attached (desk v) \<and>
        (ch \<in> control_channels (the (who v c)) \<or> ch \<in> allowedChannels (the (who v c)) \<and> valid_channel ch))"

lemma service_ok_step:
  assumes "service_step cfg v v'" and ok: "service_ok cfg v"
  shows "service_ok cfg v'"
  using assms(1)
proof cases
  case (arrive c k)
  have "c \<notin> attached (desk v)" using ok arrive(2) by (auto simp: service_ok_def)
  then have "(c, ch) \<notin> subs (desk v)" for ch using ok by (auto simp: service_ok_def)
  with ok arrive show ?thesis by (simp add: service_ok_def) (metis subset_insertI2)
next
  case (event e)
  show ?thesis
  proof (cases e)
    case (Join c)
    then show ?thesis
      using ok event by (auto simp: service_ok_def broker_full_def card_insert_if)
  next
    case (Leave c)
    have "card (attached (desk v) - {c}) \<le> card (attached (desk v))"
      using ok by (intro card_mono) (auto simp: service_ok_def)
    with Leave show ?thesis using ok event by (auto simp: service_ok_def)
  qed (use ok event in \<open>auto simp: service_ok_def\<close>)
qed

lemma service_ok_run: "(service_step cfg)^** v v' \<Longrightarrow> service_ok cfg v \<Longrightarrow> service_ok cfg v'"
  by (induction rule: rtranclp_induct) (auto intro: service_ok_step)

lemma service_ok_none: "service_ok cfg no_service"
  by (simp add: service_ok_def no_service_def)

text \<open>
  C10: The process refines the service: every state it reaches is, seen from outside, one the service
  reaches from nothing, so one within its caps and permissions; and whatever the process does from there on, shutdown included, is a run of
  the service.
\<close>

theorem process_refines_service:
  assumes "proc_reaches env parseURL net cfg p"
  shows "(service_step cfg)^** no_service (service_of (p_gw p)) \<and> service_ok cfg (service_of (p_gw p)) \<and>
    (\<forall>a p'. (proc_next net a)^** p p' \<longrightarrow> (service_step cfg)^** (service_of (p_gw p)) (service_of (p_gw p')))"
proof (intro conjI allI impI)
  obtain a p0 where m: "Load env = Inr cfg" "main_run env parseURL = Inr (a, p0)" "(proc_next net a)^** p0 p"
    using assms by (auto simp: proc_reaches_def)
  have "service_of (p_gw p0) = no_service"
    by (simp add: main_run_Inr(3) [OF m(2,1)] service_of_def no_service_def gw_start_def NewHub_def abs_hub_def fun_eq_iff)
  moreover have "(service_step cfg)^** (service_of (p_gw p0)) (service_of (p_gw p))"
    using m(1,2) served.sim_reachable [OF _ m(3)] by blast
  ultimately show run: "(service_step cfg)^** no_service (service_of (p_gw p))" by simp
  show "service_ok cfg (service_of (p_gw p))" by (rule service_ok_run [OF run service_ok_none])
  show "(service_step cfg)^** (service_of (p_gw p)) (service_of (p_gw p'))" if "(proc_next net a)^** p p'" for a p'
    by (rule served.sim_run [OF that proc_reaches_inv [OF assms]])
qed

theorem process_refines_service_witness:
  "\<exists>v. (service_step sample_config)^** no_service v \<and> attached (desk v) = {0} \<and> (0, ''news'') \<in> subs (desk v)"
proof -
  obtain s where s: "at_rest demo_subscriber s" using demo3 by blast
  then have k: "clients (g_hub s) = {0}" by (simp add: at_rest_def)
  have "0 \<in> members (g_hub s) ''news''" using at_rest_members(1) [OF s] by simp
  with k have "attached (desk (service_of s)) = {0}" "(0, ''news'') \<in> subs (desk (service_of s))"
    by (simp_all add: service_of_def)
  with process_refines_service [OF demo_lift [OF s]] show ?thesis by (intro exI [of _ "service_of s"]) simp
qed

end
