(* ===== verification/DjangoView.thy ===== *)
theory DjangoView
  imports Auth
begin

text \<open>
  The Django side of a handshake: the validation of the settings (\<open>websocket_gateway/_config.py\<close>),
  the decorator that checks the shared secret (\<open>auth_decorator.py\<close>) and the view \<open>ws_auth\<close>
  (\<open>views.py\<close>), and \<open>Validate\<close> of the gateway put together with them.

  Strings are those of HTTP headers, one character per byte. What Django itself does is a
  parameter: \<open>import_string\<close>, the session store, the user model and the application's callback, each
  with the exceptions it may raise. Django answers an exception that leaves the view with a 500.
\<close>

section \<open>Python values and exceptions\<close>

datatype py_val =
    PyNone
  | PyStr string
  | PyList "py_val list"
  | PyOther bool

fun truthy :: "py_val \<Rightarrow> bool" where
  "truthy PyNone = False"
| "truthy (PyStr s) = (s \<noteq> [])"
| "truthy (PyList vs) = (vs \<noteq> [])"
| "truthy (PyOther b) = b"

fun is_str :: "py_val \<Rightarrow> bool" where
  "is_str (PyStr s) = True"
| "is_str _ = False"

fun the_str :: "py_val \<Rightarrow> string" where
  "the_str (PyStr s) = s"
| "the_str _ = []"

text \<open>What \<open>ImproperlyConfigured\<close> is raised for; the texts hold no value of a setting but key names.\<close>

datatype config_problem =
    NoSettings
  | SecretRequired
  | SecretNotString
  | SecretTooShort
  | SecretIsSecretKey
  | MissingKeys "string list"
  | CallbackNotImportable
  | CallbackNotCallable

datatype py_error =
    ImproperlyConfigured config_problem
  | PyImportError
  | PyTypeError
  | PyException

text \<open>\<open>hmac.compare_digest\<close> on two strings: they must be ASCII.\<close>

definition ascii :: "string \<Rightarrow> bool" where
  "ascii s \<longleftrightarrow> list_all (\<lambda>c. of_char c < (128 :: nat)) s"

definition compare_digest :: "string \<Rightarrow> string \<Rightarrow> py_error + bool" where
  "compare_digest a b = (if ascii a \<and> ascii b then Inr (a = b) else Inl PyTypeError)"

section \<open>The settings\<close>

record django_user =
  pk :: int
  get_username :: string

type_synonym settings_dict = "string \<rightharpoonup> py_val"
type_synonym py_callback = "django_user \<Rightarrow> py_error + py_val"

text \<open>\<open>import_string\<close> gives \<open>None\<close> for an object that is not callable.\<close>

record django_env =
  WEBSOCKET_GATEWAY :: "settings_dict option"
  SECRET_KEY :: py_val
  import_string :: "py_val \<Rightarrow> py_error + py_callback option"
  session_user :: "string \<Rightarrow> py_error + string option"
  active_user :: "string \<Rightarrow> py_error + django_user option"

definition cfg_get :: "settings_dict \<Rightarrow> string \<Rightarrow> py_val" where
  "cfg_get cfg k = (case cfg k of None \<Rightarrow> PyNone | Some v \<Rightarrow> v)"

definition MIN_SECRET_LENGTH :: nat where
  "MIN_SECRET_LENGTH = 32"

definition REQUIRED_KEYS :: "string list" where
  "REQUIRED_KEYS = [''REDIS_URL'', ''AUTHORIZATION_CALLBACK'', ''ALLOWED_ORIGINS'']"

definition validate_secret :: "py_val \<Rightarrow> settings_dict \<Rightarrow> py_error + unit" where
  "validate_secret secret_key cfg =
     (let secret = cfg_get cfg ''INTERNAL_SECRET''
      in if \<not> truthy secret then Inl (ImproperlyConfigured SecretRequired)
         else if \<not> is_str secret then Inl (ImproperlyConfigured SecretNotString)
         else if length (the_str secret) < MIN_SECRET_LENGTH then Inl (ImproperlyConfigured SecretTooShort)
         else let django_secret = (if truthy secret_key then secret_key else PyStr [])
              in if is_str django_secret \<and> truthy django_secret
                 then go_bind (compare_digest (the_str secret) (the_str django_secret)) (\<lambda>same.
                   if same then Inl (ImproperlyConfigured SecretIsSecretKey) else Inr ())
                 else Inr ())"

definition validate_required :: "settings_dict \<Rightarrow> py_error + unit" where
  "validate_required cfg =
     (let missing = filter (\<lambda>k. \<not> truthy (cfg_get cfg k)) REQUIRED_KEYS
      in if missing \<noteq> [] then Inl (ImproperlyConfigured (MissingKeys missing)) else Inr ())"

definition validate_callback :: "(py_val \<Rightarrow> py_error + py_callback option) \<Rightarrow> settings_dict \<Rightarrow> py_error + unit" where
  "validate_callback imp cfg =
     (case imp (cfg_get cfg ''AUTHORIZATION_CALLBACK'') of
        Inl PyImportError \<Rightarrow> Inl (ImproperlyConfigured CallbackNotImportable)
      | Inl e \<Rightarrow> Inl e
      | Inr None \<Rightarrow> Inl (ImproperlyConfigured CallbackNotCallable)
      | Inr (Some f) \<Rightarrow> Inr ())"

definition get_config :: "django_env \<Rightarrow> py_error + settings_dict" where
  "get_config env =
     (case WEBSOCKET_GATEWAY env of
        None \<Rightarrow> Inl (ImproperlyConfigured NoSettings)
      | Some cfg \<Rightarrow>
          go_bind (validate_secret (SECRET_KEY env) cfg) (\<lambda>_.
          go_bind (validate_required cfg) (\<lambda>_.
          go_bind (validate_callback (import_string env) cfg) (\<lambda>_. Inr cfg))))"

section \<open>The view\<close>

text \<open>\<open>request.headers.get(name, "")\<close>: names are compared without regard to case.\<close>

definition header :: "string \<Rightarrow> http_request \<Rightarrow> string" where
  "header name rq =
     (case find (\<lambda>h. map lower_char (fst h) = map lower_char name) (rq_headers rq) of
        None \<Rightarrow> [] | Some h \<Rightarrow> snd h)"

definition reply :: "int \<Rightarrow> bytes \<Rightarrow> http_response" where
  "reply status body = \<lparr>rs_status = status, rs_body = body, rs_body_err = None\<rparr>"

definition not_authenticated :: http_response where
  "not_authenticated = reply 401 (''{'' @ quoted ''authenticated'' @ '': false}'')"

text \<open>The channels of the callback's result, if it is a list of strings.\<close>

fun channel_list :: "py_val \<Rightarrow> string list option" where
  "channel_list (PyList vs) = (if list_all is_str vs then Some (map the_str vs) else None)"
| "channel_list _ = None"

definition ws_auth :: "django_env \<Rightarrow> http_request \<Rightarrow> py_error + http_response" where
  "ws_auth env rq =
     (let session_key = header ''X-Forwarded-Session'' rq
      in if session_key = [] then Inr not_authenticated
         else go_bind (session_user env session_key) (\<lambda>user_id.
           case user_id of
             None \<Rightarrow> Inr not_authenticated
           | Some uid \<Rightarrow>
               if uid = [] then Inr not_authenticated
               else go_bind (active_user env uid) (\<lambda>user.
                 case user of
                   None \<Rightarrow> Inr not_authenticated
                 | Some u \<Rightarrow>
                     go_bind (get_config env) (\<lambda>cfg.
                     go_bind (import_string env (cfg_get cfg ''AUTHORIZATION_CALLBACK'')) (\<lambda>callback.
                       case callback of
                         None \<Rightarrow> Inl PyTypeError
                       | Some f \<Rightarrow>
                           go_bind (f u) (\<lambda>allowed.
                             case channel_list allowed of
                               None \<Rightarrow> Inl PyTypeError
                             | Some chans \<Rightarrow> Inr (reply 200 (ws_auth_body (pk u) (get_username u) chans))))))))"

text \<open>What the warnings of the decorator say; they carry the remote address, and no secret.\<close>

datatype auth_warning = MissingHeader | InvalidHeader

definition require_internal_auth ::
  "(django_env \<Rightarrow> http_request \<Rightarrow> py_error + http_response) \<Rightarrow> django_env \<Rightarrow> http_request \<Rightarrow>
   auth_warning list \<times> (py_error + http_response)" where
  "require_internal_auth view env rq =
     (case get_config env of
        Inl e \<Rightarrow> ([], Inl e)
      | Inr cfg \<Rightarrow>
          let provided = header ''X-Internal-Auth'' rq
          in if provided = [] then ([MissingHeader], Inr (reply 403 []))
             else case compare_digest provided (the_str (cfg_get cfg ''INTERNAL_SECRET'')) of
                    Inl e \<Rightarrow> ([], Inl e)
                  | Inr same \<Rightarrow> if \<not> same then ([InvalidHeader], Inr (reply 403 [])) else ([], view env rq))"

text \<open>
  The endpoint: \<open>require_POST\<close> in front, and Django's page, here \<open>page\<close>, for what was raised.
\<close>

definition ws_auth_endpoint :: "(py_error \<Rightarrow> bytes) \<Rightarrow> django_env \<Rightarrow> http_request \<Rightarrow> http_response" where
  "ws_auth_endpoint page env rq =
     (if rq_method rq \<noteq> ''POST'' then reply 405 []
      else case snd (require_internal_auth ws_auth env rq) of
             Inl e \<Rightarrow> reply 500 (page e)
           | Inr r \<Rightarrow> r)"

section \<open>Facts\<close>

lemma get_config_Inr:
  assumes "get_config env = Inr cfg"
  shows "WEBSOCKET_GATEWAY env = Some cfg"
    and "\<exists>secret. cfg ''INTERNAL_SECRET'' = Some (PyStr secret) \<and> 32 \<le> length secret \<and> SECRET_KEY env \<noteq> PyStr secret"
    and "\<forall>k \<in> set REQUIRED_KEYS. truthy (cfg_get cfg k)"
    and "\<exists>f. import_string env (cfg_get cfg ''AUTHORIZATION_CALLBACK'') = Inr (Some f)"
proof -
  have c: "WEBSOCKET_GATEWAY env = Some cfg" "validate_secret (SECRET_KEY env) cfg = Inr ()"
    "validate_required cfg = Inr ()" "validate_callback (import_string env) cfg = Inr ()"
    using assms by (auto simp: get_config_def go_bind_eq_Inr split: option.splits)
  show "WEBSOCKET_GATEWAY env = Some cfg" by (rule c)
  show "\<forall>k \<in> set REQUIRED_KEYS. truthy (cfg_get cfg k)"
    using c(3) by (auto simp: validate_required_def Let_def filter_empty_conv split: if_splits)
  show "\<exists>f. import_string env (cfg_get cfg ''AUTHORIZATION_CALLBACK'') = Inr (Some f)"
    using c(4) by (auto simp: validate_callback_def split: sum.splits option.splits py_error.splits)
  obtain s where s: "cfg_get cfg ''INTERNAL_SECRET'' = PyStr s"
    using c(2) by (cases "cfg_get cfg ''INTERNAL_SECRET''") (auto simp: validate_secret_def Let_def split: if_splits)
  then have "cfg ''INTERNAL_SECRET'' = Some (PyStr s)" by (auto simp: cfg_get_def split: option.splits)
  moreover have "32 \<le> length s \<and> SECRET_KEY env \<noteq> PyStr s"
    using c(2) by (auto simp: validate_secret_def s Let_def MIN_SECRET_LENGTH_def compare_digest_def split: if_splits)
  ultimately show "\<exists>secret. cfg ''INTERNAL_SECRET'' = Some (PyStr secret) \<and> 32 \<le> length secret \<and> SECRET_KEY env \<noteq> PyStr secret"
    by blast
qed

lemma is_str_eq: "PyStr (the_str v) = v \<longleftrightarrow> is_str v"
  by (cases v) simp_all

lemma channel_list_Some: "channel_list v = Some chans \<longleftrightarrow> v = PyList (map PyStr chans)"
proof (cases v)
  case (PyList vs)
  have "list_all is_str vs \<longleftrightarrow> map (\<lambda>w. PyStr (the_str w)) vs = vs"
    by (induction vs) (auto simp: is_str_eq)
  moreover have "map the_str (map PyStr chans) = chans" by (simp add: comp_def)
  ultimately show ?thesis
    by (auto simp: PyList comp_def list.pred_map split: if_splits)
qed auto

lemma auth_request_headers [simp]:
  "header ''X-Internal-Auth'' (auth_request a sid) = auth_secret a"
  "header ''X-Forwarded-Session'' (auth_request a sid) = sid"
proof -
  have "map lower_char ''X-Internal-Auth'' \<noteq> map lower_char ''X-Forwarded-Session''"
    by (rule notI, drule map_eq_imp_length_eq) simp
  then show "header ''X-Forwarded-Session'' (auth_request a sid) = sid"
    unfolding header_def auth_request_def by (simp del: list.map)
qed (simp add: header_def auth_request_def)

section \<open>The handshake from both sides\<close>

text \<open>Gateway and app were configured with the same secret; the session is that of an active user, to
  whom the callback grants channels; or Django knows no such user.\<close>

definition shares_secret :: "django_env \<Rightarrow> Authenticator \<Rightarrow> bool" where
  "shares_secret env a \<longleftrightarrow>
     (\<exists>cfg. get_config env = Inr cfg \<and> cfg ''INTERNAL_SECRET'' = Some (PyStr (auth_secret a)) \<and> ascii (auth_secret a))"

definition django_grants :: "django_env \<Rightarrow> string \<Rightarrow> django_user \<Rightarrow> string list \<Rightarrow> bool" where
  "django_grants env sid u chans \<longleftrightarrow>
     (\<exists>cfg uid f. get_config env = Inr cfg \<and> session_user env sid = Inr (Some uid) \<and> uid \<noteq> [] \<and>
        active_user env uid = Inr (Some u) \<and>
        import_string env (cfg_get cfg ''AUTHORIZATION_CALLBACK'') = Inr (Some f) \<and> f u = Inr (PyList (map PyStr chans)))"

definition django_knows_none :: "django_env \<Rightarrow> string \<Rightarrow> bool" where
  "django_knows_none env sid \<longleftrightarrow> session_user env sid \<in> {Inr None, Inr (Some [])} \<or>
     (\<exists>uid. uid \<noteq> [] \<and> session_user env sid = Inr (Some uid) \<and> active_user env uid = Inr None)"

text \<open>What the endpoint answers the gateway.\<close>

lemma endpoint_no_secret:
  assumes "\<not> shares_secret env a"
  shows "\<exists>b. ws_auth_endpoint page env (auth_request a sid) = reply 403 [] \<or>
    ws_auth_endpoint page env (auth_request a sid) = reply 500 b"
proof (cases "get_config env")
  case (Inr cfg)
  obtain secret where s: "cfg ''INTERNAL_SECRET'' = Some (PyStr secret)" using get_config_Inr(2) [OF Inr] by blast
  then have "secret = auth_secret a \<Longrightarrow> \<not> ascii secret" using assms Inr by (auto simp: shares_secret_def)
  with s Inr show ?thesis
    by (auto simp: ws_auth_endpoint_def require_internal_auth_def Let_def cfg_get_def compare_digest_def
        auth_request_def [THEN arg_cong [where f = rq_method]])
next
  case (Inl e)
  then have "ws_auth_endpoint page env (auth_request a sid) = reply 500 (page e)"
    by (simp add: ws_auth_endpoint_def require_internal_auth_def auth_request_def)
  then show ?thesis by blast
qed

lemma endpoint_view:
  assumes "shares_secret env a"
  shows "ws_auth_endpoint page env (auth_request a sid) =
    (case ws_auth env (auth_request a sid) of Inl e \<Rightarrow> reply 500 (page e) | Inr r \<Rightarrow> r)"
proof -
  obtain cfg where c: "get_config env = Inr cfg" "cfg ''INTERNAL_SECRET'' = Some (PyStr (auth_secret a))" "ascii (auth_secret a)"
    using assms by (auto simp: shares_secret_def)
  then have "auth_secret a \<noteq> []" using get_config_Inr(2) [OF c(1)] by auto
  with c show ?thesis
    by (simp add: ws_auth_endpoint_def require_internal_auth_def Let_def cfg_get_def compare_digest_def
        auth_request_def [THEN arg_cong [where f = rq_method]])
qed

lemma ws_auth_answer:
  assumes "sid \<noteq> []" and "get_config env = Inr cfg"
  shows "ws_auth env (auth_request a sid) = Inr not_authenticated \<and> django_knows_none env sid \<and> (\<nexists>u chans. django_grants env sid u chans) \<or>
    (\<exists>e. ws_auth env (auth_request a sid) = Inl e) \<and> \<not> django_knows_none env sid \<and> (\<nexists>u chans. django_grants env sid u chans) \<or>
    (\<exists>u chans. ws_auth env (auth_request a sid) = Inr (reply 200 (ws_auth_body (pk u) (get_username u) chans)) \<and>
       \<not> django_knows_none env sid \<and> (\<forall>v ds. django_grants env sid v ds \<longleftrightarrow> v = u \<and> ds = chans))"
proof -
  obtain f where f: "import_string env (cfg_get cfg ''AUTHORIZATION_CALLBACK'') = Inr (Some f)"
    using get_config_Inr(4) [OF assms(2)] by blast
  have inj: "map PyStr xs = map PyStr ys \<longleftrightarrow> xs = ys" for xs ys by (rule inj_map_eq_map) (simp add: inj_on_def)
  show ?thesis
  proof (cases "\<exists>uid u. uid \<noteq> [] \<and> session_user env sid = Inr (Some uid) \<and> active_user env uid = Inr (Some u)")
    case True
    then obtain uid u where u: "uid \<noteq> []" "session_user env sid = Inr (Some uid)" "active_user env uid = Inr (Some u)" by blast
    then have g: "django_grants env sid v ds \<longleftrightarrow> v = u \<and> f u = Inr (PyList (map PyStr ds))" for v ds
      using assms(2) f by (auto simp: django_grants_def)
    have n: "\<not> django_knows_none env sid" using u by (simp add: django_knows_none_def)
    show ?thesis
    proof (cases "\<exists>chans. f u = Inr (PyList (map PyStr chans))")
      case True
      then obtain chans where c: "f u = Inr (PyList (map PyStr chans))" by blast
      then have "channel_list (PyList (map PyStr chans)) = Some chans" by (simp only: channel_list_Some)
      then have "ws_auth env (auth_request a sid) = Inr (reply 200 (ws_auth_body (pk u) (get_username u) chans))"
        using assms f u c by (simp add: ws_auth_def del: channel_list.simps)
      with g n c inj show ?thesis by auto
    next
      case False
      then have "channel_list v = None" if "f u = Inr v" for v
        using that channel_list_Some [of v] by (cases "channel_list v") auto
      then have "\<exists>e. ws_auth env (auth_request a sid) = Inl e"
        using assms f u by (cases "f u") (simp_all add: ws_auth_def)
      with g n False show ?thesis by blast
    qed
  next
    case False
    then have "\<nexists>u chans. django_grants env sid u chans" by (auto simp: django_grants_def)
    with False assms(1) show ?thesis
      by (auto simp: ws_auth_def Let_def django_knows_none_def go_bind_def split: sum.splits option.splits)
  qed
qed

lemma Validate_reply:
  assumes "newRequest (auth_url a) = None" and "roundTrip (auth_request a sid) = Inr (reply status body)"
    and "length body < 65536"
  shows "snd (Validate newRequest roundTrip a sid) =
    (if status = 401 then Inl ErrUnauthenticated
     else if 500 \<le> status \<or> status < 200 then Inl (ErrAuthFailed (BadStatus status))
     else case parse_auth body of
       None \<Rightarrow> Inl (ErrAuthFailed MalformedJson)
     | Some p \<Rightarrow> if \<not> Authenticated p then Inl ErrUnauthenticated
         else Inr \<lparr>ar_UserID = resp_UserID p, ar_Username = resp_Username p,
                   ar_AllowedChannels = slice_elems (resp_AllowedChannels p), ar_SessionKey = sid\<rparr>)"
  using assms
  by (simp add: Validate_def check_response_def read_limited_def bodyLimit_def reply_def split: option.split)

lemma Validate_reply_500:
  assumes "newRequest (auth_url a) = None" and "roundTrip (auth_request a sid) = Inr (reply 500 body)"
  shows "snd (Validate newRequest roundTrip a sid) = Inl (ErrAuthFailed (BadStatus 500))"
  using assms by (simp add: Validate_def check_response_def read_limited_def reply_def)

lemma parse_auth_empty: "parse_auth [] = None"
  by (simp add: parse_auth_def Unmarshal_def json_document_def parse_json.simps(1) skip_ws_def)

lemma Validate_no_secret:
  assumes "newRequest (auth_url a) = None" and "\<not> shares_secret env a"
    and "roundTrip (auth_request a sid) = Inr (ws_auth_endpoint page env (auth_request a sid))"
  shows "\<exists>e. snd (Validate newRequest roundTrip a sid) = Inl (ErrAuthFailed e)"
proof -
  have "roundTrip (auth_request a sid) = Inr (reply 403 []) \<or> (\<exists>b. roundTrip (auth_request a sid) = Inr (reply 500 b))"
    using endpoint_no_secret [OF assms(2), of page sid] assms(3) by auto
  then show ?thesis
    using Validate_reply [where newRequest = newRequest and roundTrip = roundTrip and a = a, OF assms(1), of sid 403 "[]"]
      Validate_reply_500 [where newRequest = newRequest and roundTrip = roundTrip and a = a, OF assms(1)]
    by (auto simp: parse_auth_empty)
qed

text \<open>
  C19: the handshake as the gateway and the Django app carry it out together: if the request reaches
  the app's endpoint and its answer comes back, then, for plain names and channels that fit the limit,
  \<open>Validate\<close> accepts a session exactly when both sides have the same secret and the session belongs to
  an active user, and returns this user and the channels the application's callback grants; and it
  reports the session as unauthenticated exactly when they share the secret and the session store or
  the user model knows no such user. A wrong secret, and whatever is raised in the view, is a failure
  and never an acceptance.
\<close>

theorem handshake_django:
  assumes "newRequest (auth_url a) = None" and "sid \<noteq> []"
    and "roundTrip (auth_request a sid) = Inr (ws_auth_endpoint page env (auth_request a sid))"
    and "\<forall>u chans. django_grants env sid u chans \<longrightarrow> list_all plain_char (get_username u) \<and>
      (\<forall>c \<in> set chans. list_all plain_char c) \<and> int64_range (pk u) \<and>
      length (ws_auth_body (pk u) (get_username u) chans) < 65536"
  shows "(snd (Validate newRequest roundTrip a sid) = Inr res \<longleftrightarrow> shares_secret env a \<and>
      (\<exists>u chans. django_grants env sid u chans \<and>
         res = \<lparr>ar_UserID = pk u, ar_Username = get_username u, ar_AllowedChannels = chans, ar_SessionKey = sid\<rparr>)) \<and>
    (snd (Validate newRequest roundTrip a sid) = Inl ErrUnauthenticated \<longleftrightarrow>
      shares_secret env a \<and> django_knows_none env sid)"
proof -
  note V = Validate_reply [where newRequest = newRequest and roundTrip = roundTrip and a = a and sid = sid, OF assms(1)]
  show ?thesis
  proof (cases "shares_secret env a")
    case False
    with Validate_no_secret [where newRequest = newRequest and roundTrip = roundTrip, OF assms(1) False assms(3)] show ?thesis by auto
  next
    case True
    then obtain cfg where cfg: "get_config env = Inr cfg" by (auto simp: shares_secret_def)
    note rt = assms(3) [unfolded endpoint_view [OF True]]
    from ws_auth_answer [OF assms(2) cfg, of a] consider
        "ws_auth env (auth_request a sid) = Inr not_authenticated" "django_knows_none env sid" "\<nexists>u chans. django_grants env sid u chans"
      | e where "ws_auth env (auth_request a sid) = Inl e" "\<not> django_knows_none env sid" "\<nexists>u chans. django_grants env sid u chans"
      | u chans where "ws_auth env (auth_request a sid) = Inr (reply 200 (ws_auth_body (pk u) (get_username u) chans))"
          "\<not> django_knows_none env sid" "\<forall>v ds. django_grants env sid v ds \<longleftrightarrow> v = u \<and> ds = chans"
      by blast
    then show ?thesis
    proof cases
      case 1
      with V [of 401] rt True show ?thesis by (simp add: not_authenticated_def quoted_def)
    next
      case 2
      with Validate_reply_500 [where newRequest = newRequest and roundTrip = roundTrip, OF assms(1)] rt True
      show ?thesis by simp
    next
      case 3
      have "django_grants env sid u chans" using 3(3) by blast
      then have "snd (Validate newRequest roundTrip a sid) =
          Inr \<lparr>ar_UserID = pk u, ar_Username = get_username u, ar_AllowedChannels = chans, ar_SessionKey = sid\<rparr>"
        using V [of 200] rt 3(1) assms(4) by (simp add: parse_ws_auth_body slice_elems_def)
      with 3 True show ?thesis by auto
    qed
  qed
qed

definition sample_django_env :: django_env where
  "sample_django_env = \<lparr>
     WEBSOCKET_GATEWAY = Some [''INTERNAL_SECRET'' \<mapsto> PyStr ''this-is-a-valid-thirty-two-character-secret'',
       ''REDIS_URL'' \<mapsto> PyStr ''redis://localhost:6379/0'', ''AUTHORIZATION_CALLBACK'' \<mapsto> PyStr ''app.channels_for'',
       ''ALLOWED_ORIGINS'' \<mapsto> PyList [PyStr ''https://a.example'']],
     SECRET_KEY = PyStr ''django-insecure'',
     import_string = (\<lambda>_. Inr (Some (\<lambda>_. Inr (PyList [PyStr ''news'', PyStr ''sport''])))),
     session_user = (\<lambda>k. Inr (if k = ''k1'' then Some ''5'' else None)),
     active_user = (\<lambda>i. Inr (if i = ''5'' then Some \<lparr>pk = 5, get_username = ''ann''\<rparr> else None))\<rparr>"

lemma sample_shares_secret: "shares_secret sample_django_env sample_auth"
proof -
  have a: "ascii ''this-is-a-valid-thirty-two-character-secret''" "ascii ''django-insecure''" by code_simp+
  have "get_config sample_django_env = Inr (the (WEBSOCKET_GATEWAY sample_django_env))"
    by (simp add: get_config_def sample_django_env_def validate_secret_def validate_required_def validate_callback_def
        REQUIRED_KEYS_def cfg_get_def MIN_SECRET_LENGTH_def compare_digest_def a Let_def)
  with a show ?thesis
    by (simp add: shares_secret_def sample_django_env_def sample_auth_def NewAuthenticator_def sample_config_def Let_def)
qed

theorem handshake_django_witness:
  "snd (Validate (\<lambda>_. None) (\<lambda>rq. Inr (ws_auth_endpoint (\<lambda>_. []) sample_django_env rq)) sample_auth ''k1'') =
     Inr \<lparr>ar_UserID = 5, ar_Username = ''ann'', ar_AllowedChannels = [''news'', ''sport''], ar_SessionKey = ''k1''\<rparr> \<and>
   snd (Validate (\<lambda>_. None) (\<lambda>rq. Inr (ws_auth_endpoint (\<lambda>_. []) sample_django_env rq)) sample_auth ''k2'') =
     Inl ErrUnauthenticated"
proof -
  obtain cfg where cfg: "get_config sample_django_env = Inr cfg" using sample_shares_secret by (auto simp: shares_secret_def)
  have inj: "PyList (map PyStr chans) = PyList [PyStr ''news'', PyStr ''sport''] \<longleftrightarrow> chans = [''news'', ''sport'']" for chans
    by (auto simp: map_eq_Cons_conv)
  have g: "django_grants sample_django_env sid u chans \<longleftrightarrow>
      sid = ''k1'' \<and> u = \<lparr>pk = 5, get_username = ''ann''\<rparr> \<and> chans = [''news'', ''sport'']" for sid u chans
    using cfg inj [of chans] by (auto simp: django_grants_def sample_django_env_def split: if_splits)
  have n: "django_knows_none sample_django_env ''k2''" by (simp add: django_knows_none_def sample_django_env_def)
  have pl: "\<forall>u chans. django_grants sample_django_env sid u chans \<longrightarrow> list_all plain_char (get_username u) \<and>
      (\<forall>c \<in> set chans. list_all plain_char c) \<and> int64_range (pk u) \<and>
      length (ws_auth_body (pk u) (get_username u) chans) < 65536" for sid
    by (simp add: g plain_char_def between_def int64_range_def ws_auth_body_def quoted_def FormatInt_def dec_nat.simps)
  note h = handshake_django [where newRequest = "\<lambda>_. None" and page = "\<lambda>_. []" and env = sample_django_env and
      roundTrip = "\<lambda>rq. Inr (ws_auth_endpoint (\<lambda>_. []) sample_django_env rq)" and a = sample_auth, OF refl _ refl pl]
  show ?thesis
    using h [of "''k1''" "\<lparr>ar_UserID = 5, ar_Username = ''ann'', ar_AllowedChannels = [''news'', ''sport''], ar_SessionKey = ''k1''\<rparr>"]
      h [of "''k2''"] sample_shares_secret g n by simp
qed

text \<open>
  A secret header that is not ASCII makes the comparison raise, which Django answers with a 500 and no
  warning, where a wrong secret gets a 403.
\<close>

theorem non_ascii_secret_raises:
  assumes "get_config env = Inr cfg" and "rq_method rq = ''POST''" and "header ''X-Internal-Auth'' rq \<noteq> []"
    and "\<not> ascii (header ''X-Internal-Auth'' rq)"
  shows "require_internal_auth view env rq = ([], Inl PyTypeError) \<and> ws_auth_endpoint page env rq = reply 500 (page PyTypeError)"
  using assms by (simp add: ws_auth_endpoint_def require_internal_auth_def compare_digest_def Let_def)

end
