(* ===== verification/Browser.thy ===== *)
theory Browser
  imports Complex_Main GatewayFacts
begin

text \<open>
  The browser's side of a connection: the class \<open>WSClient\<close> of
  \<open>websocket_gateway/static/websocket_gateway/client.js\<close> as a state machine over what the page
  calls, what the browser's WebSocket objects do, and its timers.

  The WebSocket objects are the browser's: their states and the order of their events are those of
  its specification. The text of a frame is \<open>JSON.stringify\<close>'s for plain names; \<open>JSON.parse\<close> is read
  as the scanner of theory \<open>GoJson\<close>. A delay is a rational number, \<open>Math.random()\<close> one from 0 up to 1.
\<close>

section \<open>State\<close>

datatype readyState = CONNECTING | OPEN | CLOSING | CLOSED

record js_socket =
  sk_url :: string
  ready :: readyState
  frames :: "bytes list"

datatype js_error = InvalidStateError | TypeError

text \<open>What the page sees: a handler called with a payload, or a warning on the console.\<close>

datatype 'h page_event = Called 'h "json option" | Warned

text \<open>
  \<open>socks\<close> are all WebSocket objects made so far, the last one being \<open>this.ws\<close>; \<open>timers\<close> are the
  delays of the timeouts that have not fired; \<open>page\<close> is a history.
\<close>

record 'h WSClient =
  js_url :: string
  js_channels :: "string list"
  js_handlers :: "string \<rightharpoonup> 'h"
  backoff :: int
  maxBackoff :: int
  shouldReconnect :: bool
  socks :: "js_socket list"
  timers :: "rat list"
  page :: "'h page_event list"

section \<open>Operations\<close>

definition set_add :: "string \<Rightarrow> string list \<Rightarrow> string list" where
  "set_add ch cs = (if ch \<in> set cs then cs else cs @ [ch])"

definition client_text :: "string \<Rightarrow> string \<Rightarrow> bytes" where
  "client_text action channel =
     ''{'' @ quoted ''action'' @ '':'' @ quoted action @ '','' @ quoted ''channel'' @ '':'' @ quoted channel @ ''}''"

definition js_connect :: "'h WSClient \<Rightarrow> 'h WSClient" where
  "js_connect c = c\<lparr>socks := socks c @ [\<lparr>sk_url = js_url c, ready = CONNECTING, frames = []\<rparr>]\<rparr>"

definition js_new :: "string \<Rightarrow> string list \<Rightarrow> 'h WSClient" where
  "js_new url chans =
     js_connect \<lparr>js_url = url, js_channels = fold set_add chans [], js_handlers = Map.empty, backoff = 1000,
       maxBackoff = 30000, shouldReconnect = True, socks = [], timers = [], page = []\<rparr>"

definition ws_state :: "'h WSClient \<Rightarrow> readyState" where
  "ws_state c = ready (last (socks c))"

definition upd_sock :: "nat \<Rightarrow> (js_socket \<Rightarrow> js_socket) \<Rightarrow> 'h WSClient \<Rightarrow> 'h WSClient" where
  "upd_sock i f c = c\<lparr>socks := (socks c)[i := f (socks c ! i)]\<rparr>"

definition this_ws :: "'h WSClient \<Rightarrow> nat" where
  "this_ws c = length (socks c) - 1"

text \<open>\<open>send\<close> and \<open>close\<close> of a WebSocket.\<close>

definition ws_send :: "bytes \<Rightarrow> 'h WSClient \<Rightarrow> 'h WSClient \<times> js_error option" where
  "ws_send text c =
     (case ws_state c of
        CONNECTING \<Rightarrow> (c, Some InvalidStateError)
      | OPEN \<Rightarrow> (upd_sock (this_ws c) (\<lambda>s. s\<lparr>frames := frames s @ [text]\<rparr>) c, None)
      | _ \<Rightarrow> (c, None))"

definition ws_close :: "'h WSClient \<Rightarrow> 'h WSClient" where
  "ws_close c =
     (if ws_state c \<in> {CONNECTING, OPEN} then upd_sock (this_ws c) (\<lambda>s. s\<lparr>ready := CLOSING\<rparr>) c else c)"

definition js_on :: "string \<Rightarrow> 'h \<Rightarrow> 'h WSClient \<Rightarrow> 'h WSClient" where
  "js_on channel handler c = c\<lparr>js_handlers := (js_handlers c)(channel \<mapsto> handler)\<rparr>"

definition js_subscribe :: "string \<Rightarrow> 'h WSClient \<Rightarrow> 'h WSClient \<times> js_error option" where
  "js_subscribe channel c =
     (let c1 = c\<lparr>js_channels := set_add channel (js_channels c)\<rparr>
      in if ws_state c1 = OPEN then ws_send (client_text ''subscribe'' channel) c1 else (c1, None))"

definition js_unsubscribe :: "string \<Rightarrow> 'h WSClient \<Rightarrow> 'h WSClient \<times> js_error option" where
  "js_unsubscribe channel c =
     (let c1 = c\<lparr>js_channels := removeAll channel (js_channels c)\<rparr>
      in if ws_state c1 = OPEN then ws_send (client_text ''unsubscribe'' channel) c1 else (c1, None))"

definition js_close :: "'h WSClient \<Rightarrow> 'h WSClient" where
  "js_close c = ws_close (c\<lparr>shouldReconnect := False\<rparr>)"

fun send_all :: "string list \<Rightarrow> 'h WSClient \<Rightarrow> 'h WSClient \<times> js_error option" where
  "send_all [] c = (c, None)"
| "send_all (ch # chs) c =
     (case ws_send (client_text ''subscribe'' ch) c of
        (c1, Some e) \<Rightarrow> (c1, Some e)
      | (c1, None) \<Rightarrow> send_all chs c1)"

definition onopen :: "'h WSClient \<Rightarrow> 'h WSClient \<times> js_error option" where
  "onopen c = (let c1 = c\<lparr>backoff := 1000\<rparr> in send_all (js_channels c1) c1)"

text \<open>A property of a parsed value that is not null; of several members of one name the last counts.\<close>

definition js_member :: "string \<Rightarrow> json \<Rightarrow> json option" where
  "js_member k j = (case j of JObj kvs \<Rightarrow> map_of (rev kvs) k | _ \<Rightarrow> None)"

definition onmessage :: "bytes \<Rightarrow> 'h WSClient \<Rightarrow> 'h WSClient \<times> js_error option" where
  "onmessage data c =
     (case json_document data of
        None \<Rightarrow> (c, None)
      | Some JNull \<Rightarrow> (c, Some TypeError)
      | Some v \<Rightarrow>
          if js_member ''type'' v = Some (JStr ''error'') then (c\<lparr>page := page c @ [Warned]\<rparr>, None)
          else (case js_member ''channel'' v of
                  Some (JStr ch) \<Rightarrow>
                    (case js_handlers c ch of
                       None \<Rightarrow> (c, None)
                     | Some h \<Rightarrow> (c\<lparr>page := page c @ [Called h (js_member ''payload'' v)]\<rparr>, None))
                | _ \<Rightarrow> (c, None)))"

definition onclose :: "int \<Rightarrow> rat \<Rightarrow> 'h WSClient \<Rightarrow> 'h WSClient" where
  "onclose co random c =
     (if \<not> shouldReconnect c then c
      else if co = 4401 then c\<lparr>page := page c @ [Warned]\<rparr>
      else let delay = of_int (backoff c) + random * 1000
           in c\<lparr>timers := timers c @ [delay], backoff := min (backoff c * 2) (maxBackoff c)\<rparr>)"

section \<open>Events\<close>

datatype 'h js_event =
    On string 'h
  | CallSubscribe string
  | CallUnsubscribe string
  | CallClose
  | SockOpen nat
  | SockMessage nat bytes
  | SockError nat
  | SockClosed nat int rat
  | TimerFires nat

text \<open>When the browser may deliver an event.\<close>

fun enabled :: "'h js_event \<Rightarrow> 'h WSClient \<Rightarrow> bool" where
  "enabled (SockOpen i) c = (i < length (socks c) \<and> ready (socks c ! i) = CONNECTING)"
| "enabled (SockMessage i data) c = (i < length (socks c) \<and> ready (socks c ! i) = OPEN)"
| "enabled (SockError i) c = (i < length (socks c) \<and> ready (socks c ! i) \<noteq> CLOSED)"
| "enabled (SockClosed i co r) c = (i < length (socks c) \<and> ready (socks c ! i) \<noteq> CLOSED \<and> 0 \<le> r \<and> r < 1)"
| "enabled (TimerFires k) c = (k < length (timers c))"
| "enabled _ c = True"

fun js_handle :: "'h js_event \<Rightarrow> 'h WSClient \<Rightarrow> 'h WSClient \<times> js_error option" where
  "js_handle (On ch h) c = (js_on ch h c, None)"
| "js_handle (CallSubscribe ch) c = js_subscribe ch c"
| "js_handle (CallUnsubscribe ch) c = js_unsubscribe ch c"
| "js_handle CallClose c = (js_close c, None)"
| "js_handle (SockOpen i) c = onopen (upd_sock i (\<lambda>s. s\<lparr>ready := OPEN\<rparr>) c)"
| "js_handle (SockMessage i data) c = onmessage data c"
| "js_handle (SockError i) c = (ws_close c, None)"
| "js_handle (SockClosed i co r) c = (onclose co r (upd_sock i (\<lambda>s. s\<lparr>ready := CLOSED\<rparr>) c), None)"
| "js_handle (TimerFires k) c = (js_connect (c\<lparr>timers := take k (timers c) @ drop (Suc k) (timers c)\<rparr>), None)"

definition js_step :: "'h WSClient \<Rightarrow> 'h WSClient \<Rightarrow> bool" where
  "js_step c c' \<longleftrightarrow> (\<exists>e. enabled e c \<and> c' = fst (js_handle e c))"

section \<open>The invariant\<close>

text \<open>What the server has been asked for by a list of frames, given by their action and channel.\<close>

definition asked :: "(string \<times> string) list \<Rightarrow> string set" where
  "asked fs = fold (\<lambda>(a, ch) S. if a = ''subscribe'' then insert ch S else S - {ch}) fs {}"

lemma asked_simps [simp]:
  "asked [] = {}"
  "asked (fs @ [(a, ch)]) = (if a = ''subscribe'' then insert ch (asked fs) else asked fs - {ch})"
  by (simp_all add: asked_def)

definition speaks :: "bytes list \<Rightarrow> string set \<Rightarrow> bool" where
  "speaks ts S \<longleftrightarrow> (\<exists>fs. ts = map (\<lambda>(a, ch). client_text a ch) fs \<and> asked fs = S \<and>
     fst ` set fs \<subseteq> {''subscribe'', ''unsubscribe''})"

lemma speaks_Nil [simp]: "speaks [] {}"
  by (simp add: speaks_def)

lemma speaks_more:
  "speaks ts S \<Longrightarrow> speaks (ts @ [client_text ''subscribe'' ch]) (insert ch S)"
  "speaks ts S \<Longrightarrow> speaks (ts @ [client_text ''unsubscribe'' ch]) (S - {ch})"
proof -
  assume "speaks ts S"
  then obtain fs where fs: "ts = map (\<lambda>(a, ch). client_text a ch) fs" "asked fs = S"
    "fst ` set fs \<subseteq> {''subscribe'', ''unsubscribe''}"
    by (auto simp: speaks_def)
  show "speaks (ts @ [client_text ''subscribe'' ch]) (insert ch S)"
    unfolding speaks_def using fs by (intro exI [of _ "fs @ [(''subscribe'', ch)]"]) simp
  show "speaks (ts @ [client_text ''unsubscribe'' ch]) (S - {ch})"
    unfolding speaks_def using fs by (intro exI [of _ "fs @ [(''unsubscribe'', ch)]"]) simp
qed

text \<open>The sockets alone: only the last may be open, and none while a timeout is pending.\<close>

definition socks_ok :: "'h WSClient \<Rightarrow> bool" where
  "socks_ok c \<longleftrightarrow> socks c \<noteq> [] \<and> length (timers c) \<le> 1 \<and>
     (\<forall>i < length (socks c). ready (socks c ! i) \<noteq> CLOSED \<longrightarrow> i = this_ws c \<and> timers c = [])"

text \<open>The current connection: nothing is said before it is open, then exactly the page's channels.\<close>

definition in_step :: "'h WSClient \<Rightarrow> bool" where
  "in_step c \<longleftrightarrow> (ws_state c = CONNECTING \<longrightarrow> frames (last (socks c)) = []) \<and>
     (ws_state c = OPEN \<longrightarrow> speaks (frames (last (socks c))) (set (js_channels c)))"

definition backoff_ok :: "'h WSClient \<Rightarrow> bool" where
  "backoff_ok c \<longleftrightarrow> maxBackoff c = 30000 \<and> backoff c \<in> {1000, 2000, 4000, 8000, 16000, 30000} \<and>
     (\<forall>d \<in> set (timers c). 1000 \<le> d \<and> d < 31000)"

definition js_inv :: "'h WSClient \<Rightarrow> bool" where
  "js_inv c \<longleftrightarrow> socks_ok c \<and> in_step c \<and> backoff_ok c"

section \<open>What the handlers keep\<close>

lemma upd_sock_simps [simp]:
  "length (socks (upd_sock i f c)) = length (socks c)" "socks (upd_sock i f c) = [] \<longleftrightarrow> socks c = []"
  "timers (upd_sock i f c) = timers c" "js_channels (upd_sock i f c) = js_channels c"
  "backoff (upd_sock i f c) = backoff c" "maxBackoff (upd_sock i f c) = maxBackoff c"
  "shouldReconnect (upd_sock i f c) = shouldReconnect c" "this_ws (upd_sock i f c) = this_ws c"
  "page (upd_sock i f c) = page c"
  by (simp_all add: upd_sock_def this_ws_def)

lemma nth_this_ws: "socks c \<noteq> [] \<Longrightarrow> socks c ! this_ws c = last (socks c)"
  by (simp add: this_ws_def last_conv_nth)

lemma last_upd_this [simp]: "socks c \<noteq> [] \<Longrightarrow> last (socks (upd_sock (this_ws c) f c)) = f (last (socks c))"
  by (simp add: upd_sock_def this_ws_def last_conv_nth)

lemma ws_state_upd_this [simp]: "socks c \<noteq> [] \<Longrightarrow> ws_state (upd_sock (this_ws c) f c) = ready (f (last (socks c)))"
  by (simp add: ws_state_def)

lemma nth_upd_sock: "j < length (socks c) \<Longrightarrow> socks (upd_sock i f c) ! j = (if i = j then f (socks c ! i) else socks c ! j)"
  by (simp add: upd_sock_def)

lemma socks_ok_upd:
  assumes "socks_ok c" and "ready (f (socks c ! i)) \<noteq> CLOSED \<Longrightarrow> ready (socks c ! i) \<noteq> CLOSED"
  shows "socks_ok (upd_sock i f c)"
  using assms by (auto simp: socks_ok_def nth_upd_sock)

lemma socks_ok_simps [simp]:
  "socks_ok (c\<lparr>js_channels := cs\<rparr>) = socks_ok c" "socks_ok (c\<lparr>backoff := b\<rparr>) = socks_ok c"
  by (simp_all add: socks_ok_def this_ws_def)

lemma ws_send_open:
  "ws_state c = OPEN \<Longrightarrow> ws_send t c = (upd_sock (this_ws c) (\<lambda>s. s\<lparr>frames := frames s @ [t]\<rparr>) c, None)"
  by (simp add: ws_send_def)

lemma send_all_open:
  assumes "socks c \<noteq> []" and "ws_state c = OPEN"
  shows "send_all chs c =
    (upd_sock (this_ws c) (\<lambda>s. s\<lparr>frames := frames s @ map (client_text ''subscribe'') chs\<rparr>) c, None)"
  using assms
proof (induction chs arbitrary: c)
  case Nil
  have "(\<lambda>s :: js_socket. s\<lparr>frames := frames s\<rparr>) = (\<lambda>s. s)" by (simp add: fun_eq_iff)
  then show ?case by (simp add: upd_sock_def)
next
  case (Cons ch chs)
  let ?c = "upd_sock (this_ws c) (\<lambda>s. s\<lparr>frames := frames s @ [client_text ''subscribe'' ch]\<rparr>) c"
  have "ws_state ?c = OPEN" using Cons.prems by (simp add: ws_state_def)
  with Cons.prems Cons.IH [of ?c] show ?case
    by (simp add: ws_send_open upd_sock_def this_ws_def)
qed

lemma speaks_subscribes: "speaks (map (client_text ''subscribe'') chs) (set chs)"
proof (induction chs rule: rev_induct)
  case (snoc ch chs)
  from speaks_more(1) [OF snoc, of ch] show ?case by simp
qed simp

lemma set_set_add [simp]: "set (set_add ch cs) = insert ch (set cs)"
  by (auto simp: set_add_def)

lemma js_inv_new: "js_inv (js_new url chans)"
  by (simp add: js_inv_def js_new_def js_connect_def socks_ok_def in_step_def backoff_ok_def ws_state_def this_ws_def)

lemma js_inv_same:
  assumes "js_inv c" and "socks c' = socks c" and "timers c' = timers c" and "js_channels c' = js_channels c"
    and "backoff c' = backoff c" and "maxBackoff c' = maxBackoff c"
  shows "js_inv c'"
  using assms by (simp add: js_inv_def socks_ok_def in_step_def backoff_ok_def ws_state_def this_ws_def)

lemma js_inv_page [simp]: "js_inv (c\<lparr>page := x\<rparr>) = js_inv c"
  by (simp add: js_inv_def socks_ok_def in_step_def backoff_ok_def ws_state_def this_ws_def)

lemma js_inv_ws_close: "js_inv c \<Longrightarrow> js_inv (ws_close c)"
proof (cases "ws_state c \<in> {CONNECTING, OPEN}")
  case True
  assume inv: "js_inv c"
  let ?c = "upd_sock (this_ws c) (\<lambda>s. s\<lparr>ready := CLOSING\<rparr>) c"
  have "socks c \<noteq> []" "ready (socks c ! this_ws c) \<noteq> CLOSED"
    using inv True by (auto simp: js_inv_def socks_ok_def ws_state_def nth_this_ws)
  then have "socks_ok ?c" "ws_state ?c = CLOSING" using inv by (simp_all add: js_inv_def socks_ok_upd)
  with inv True show ?thesis by (simp add: js_inv_def ws_close_def in_step_def backoff_ok_def)
qed (simp add: ws_close_def)

text \<open>A change of the page's channels that is told on the current connection if it is open.\<close>

lemma js_inv_tell:
  assumes inv: "js_inv c" and more: "\<And>ts. speaks ts (set (js_channels c)) \<Longrightarrow> speaks (ts @ [t]) (set cs)"
    and r: "r = (if ws_state c = OPEN then ws_send t (c\<lparr>js_channels := cs\<rparr>) else (c\<lparr>js_channels := cs\<rparr>, None))"
  shows "js_inv (fst r) \<and> snd r = None"
proof (cases "ws_state c = OPEN")
  case True
  let ?c = "c\<lparr>js_channels := cs\<rparr>"
  have o: "ws_state ?c = OPEN" "socks ?c \<noteq> []" using True inv by (simp_all add: ws_state_def js_inv_def socks_ok_def)
  have "socks_ok ?c" using inv by (simp add: js_inv_def)
  then have "js_inv (upd_sock (this_ws ?c) (\<lambda>s. s\<lparr>frames := frames s @ [t]\<rparr>) ?c)"
    using inv o True more [of "frames (last (socks c))"]
    by (auto simp: js_inv_def in_step_def backoff_ok_def ws_state_def intro!: socks_ok_upd)
  then show ?thesis using True o by (simp add: r ws_send_open)
next
  case False
  then show ?thesis using inv by (simp add: r js_inv_def in_step_def backoff_ok_def ws_state_def)
qed

lemma js_inv_open:
  assumes inv: "js_inv c" and i: "i < length (socks c)" "ready (socks c ! i) = CONNECTING"
  shows "js_inv (fst (onopen (upd_sock i (\<lambda>s. s\<lparr>ready := OPEN\<rparr>) c))) \<and>
    snd (onopen (upd_sock i (\<lambda>s. s\<lparr>ready := OPEN\<rparr>) c)) = None"
proof -
  let ?c = "(upd_sock i (\<lambda>s. s\<lparr>ready := OPEN\<rparr>) c)\<lparr>backoff := 1000\<rparr>"
  have th: "i = this_ws c" "socks c \<noteq> []" "timers c = []" using inv i by (auto simp: js_inv_def socks_ok_def)
  then have o: "ws_state ?c = OPEN" "socks ?c \<noteq> []" by (simp_all add: ws_state_def)
  have fresh: "frames (last (socks c)) = []"
    using inv i(2) th by (simp add: js_inv_def in_step_def ws_state_def nth_this_ws)
  have ok: "socks_ok ?c" using inv i th by (auto simp: js_inv_def socks_ok_def nth_upd_sock this_ws_def upd_sock_def)
  note s = send_all_open [OF o(2,1), of "js_channels c"]
  have "js_inv (fst (send_all (js_channels c) ?c))"
    using inv o th fresh speaks_subscribes [of "js_channels c"] ok unfolding s
    by (auto simp: js_inv_def in_step_def backoff_ok_def ws_state_def intro!: socks_ok_upd)
  then show ?thesis using s by (simp add: onopen_def Let_def)
qed

lemma js_inv_closed:
  assumes inv: "js_inv c" and i: "i < length (socks c)" "ready (socks c ! i) \<noteq> CLOSED" and r: "0 \<le> r" "r < 1"
  shows "js_inv (onclose co r (upd_sock i (\<lambda>s. s\<lparr>ready := CLOSED\<rparr>) c))"
proof -
  let ?c = "upd_sock i (\<lambda>s. s\<lparr>ready := CLOSED\<rparr>) c"
  have th: "i = this_ws c" "socks c \<noteq> []" "timers c = []" using inv i by (auto simp: js_inv_def socks_ok_def)
  have dead: "ready (socks ?c ! j) = CLOSED" if "j < length (socks c)" for j
    using inv th that by (auto simp: js_inv_def socks_ok_def nth_upd_sock)
  have cl: "ws_state ?c = CLOSED" using th by simp
  moreover have "socks_ok ?c" by (rule socks_ok_upd) (use inv in \<open>simp_all add: js_inv_def\<close>)
  ultimately have ok: "js_inv ?c" using inv by (simp add: js_inv_def in_step_def backoff_ok_def)
  let ?d = "?c\<lparr>timers := [of_int (backoff c) + r * 1000], backoff := min (backoff c * 2) 30000\<rparr>"
  have "socks_ok ?d" using th dead by (simp add: socks_ok_def)
  moreover have "in_step ?d" using cl by (simp add: in_step_def ws_state_def)
  moreover have b: "backoff c \<in> {1000, 2000, 4000, 8000, 16000, 30000}" "maxBackoff c = 30000"
    using inv by (simp_all add: js_inv_def backoff_ok_def)
  then have "backoff_ok ?d" using r by (auto simp: backoff_ok_def)
  ultimately have "js_inv ?d" by (simp add: js_inv_def)
  then show ?thesis using th b(2) ok by (simp add: onclose_def Let_def)
qed

lemma js_inv_timer:
  assumes inv: "js_inv c" and k: "k < length (timers c)"
  shows "js_inv (js_connect (c\<lparr>timers := take k (timers c) @ drop (Suc k) (timers c)\<rparr>))"
proof -
  obtain d where d: "timers c = [d]" "k = 0"
    using inv k by (cases "timers c") (auto simp: js_inv_def socks_ok_def)
  have "ready (socks c ! j) = CLOSED" if "j < length (socks c)" for j
    using inv that d by (auto simp: js_inv_def socks_ok_def)
  then show ?thesis
    using inv d by (auto simp: js_inv_def js_connect_def socks_ok_def in_step_def backoff_ok_def ws_state_def this_ws_def nth_append less_Suc_eq)
qed

lemma onmessage_keeps: "js_inv (fst (onmessage data c)) = js_inv c"
  by (auto simp: onmessage_def split: option.split json.split)

lemma js_handle_inv: "js_inv c \<Longrightarrow> enabled e c \<Longrightarrow> js_inv (fst (js_handle e c))"
proof (cases e)
  case (On ch h)
  assume "js_inv c"
  then show ?thesis unfolding On js_handle.simps fst_conv js_on_def by (rule js_inv_same) simp_all
next
  case (CallSubscribe ch)
  assume "js_inv c"
  from js_inv_tell [OF this, of "client_text ''subscribe'' ch" "set_add ch (js_channels c)"] speaks_more(1)
  show ?thesis by (simp add: CallSubscribe js_subscribe_def Let_def ws_state_def)
next
  case (CallUnsubscribe ch)
  assume "js_inv c"
  from js_inv_tell [OF this, of "client_text ''unsubscribe'' ch" "removeAll ch (js_channels c)"] speaks_more(2)
  show ?thesis by (simp add: CallUnsubscribe js_unsubscribe_def Let_def ws_state_def)
next
  case CallClose
  assume "js_inv c"
  then have "js_inv (c\<lparr>shouldReconnect := False\<rparr>)" by (rule js_inv_same) simp_all
  then show ?thesis by (simp add: CallClose js_close_def js_inv_ws_close)
qed (auto simp: js_inv_open js_inv_closed js_inv_timer js_inv_ws_close onmessage_keeps)

interpretation page: invariant_system "\<lambda>c. \<exists>url chans. c = js_new url chans" js_step js_inv
  by unfold_locales (auto simp: js_inv_new js_step_def js_handle_inv)

end
