(* ===== verification/BrowserProps.thy ===== *)
theory BrowserProps
  imports Browser
begin

text \<open>
  The properties of the browser's client: what holds whatever the page calls, the network does and the
  timers do, and how the client fits the gateway on the other side of the connection.
\<close>

definition js_reaches :: "string \<Rightarrow> string list \<Rightarrow> 'h WSClient \<Rightarrow> bool" where
  "js_reaches url chans c \<longleftrightarrow> js_step^** (js_new url chans) c"

lemma js_reaches_inv: "js_reaches url chans c \<Longrightarrow> js_inv c"
  unfolding js_reaches_def by (rule page.reachable_inv) blast

lemma js_reaches_event: "js_reaches url chans c \<Longrightarrow> enabled e c \<Longrightarrow> js_reaches url chans (fst (js_handle e c))"
  unfolding js_reaches_def js_step_def by (rule rtranclp.rtrancl_into_rtrancl) auto

section \<open>One connection\<close>

lemma js_handle_raises:
  assumes "js_inv c" and "enabled e c" and "snd (js_handle e c) \<noteq> None"
  shows "\<exists>i data. e = SockMessage i data \<and> json_document data = Some JNull"
proof (cases e)
  case (CallSubscribe ch)
  with js_inv_tell [OF assms(1), of "client_text ''subscribe'' ch" "set_add ch (js_channels c)"] speaks_more(1) assms(3)
  show ?thesis by (simp add: js_subscribe_def Let_def ws_state_def)
next
  case (CallUnsubscribe ch)
  with js_inv_tell [OF assms(1), of "client_text ''unsubscribe'' ch" "removeAll ch (js_channels c)"] speaks_more(2) assms(3)
  show ?thesis by (simp add: js_unsubscribe_def Let_def ws_state_def)
next
  case (SockOpen i)
  with js_inv_open [OF assms(1), of i] assms(2,3) show ?thesis by simp
next
  case (SockMessage i data)
  with assms(3) show ?thesis by (auto simp: onmessage_def split: option.splits json.splits if_splits)
qed (use assms(3) in simp_all)

text \<open>
  C23: whatever the page calls and the network does, the client has at most one connection that is not
  closed or one pending attempt, and never both; an attempt waits at least 1 and less than 31 seconds;
  and no event handler raises, but for a message that is the JSON value null.
\<close>

theorem one_connection:
  assumes "js_reaches url chans c"
  shows "length (timers c) + card {i. i < length (socks c) \<and> ready (socks c ! i) \<noteq> CLOSED} \<le> 1 \<and>
    (\<forall>d \<in> set (timers c). 1000 \<le> d \<and> d < 31000) \<and>
    (\<forall>e. enabled e c \<longrightarrow> snd (js_handle e c) = None \<or>
       (\<exists>i data. e = SockMessage i data \<and> json_document data = Some JNull))"
proof -
  have inv: "js_inv c" by (rule js_reaches_inv [OF assms])
  let ?L = "{i. i < length (socks c) \<and> ready (socks c ! i) \<noteq> CLOSED}"
  have "length (timers c) + card ?L \<le> 1"
  proof (cases "?L = {}")
    case True
    then show ?thesis using inv by (simp only: True) (simp add: js_inv_def socks_ok_def)
  next
    case False
    then have "?L \<subseteq> {this_ws c}" "timers c = []" using inv by (auto simp: js_inv_def socks_ok_def)
    then show ?thesis using card_mono [of "{this_ws c}" ?L] by simp
  qed
  moreover have "\<forall>d \<in> set (timers c). 1000 \<le> d \<and> d < 31000" using inv by (simp add: js_inv_def backoff_ok_def)
  ultimately show ?thesis using js_handle_raises [OF inv] by blast
qed

section \<open>What the page asks of the gateway\<close>

lemma parse_text:
  "list_all plain_char v \<Longrightarrow> parse_json Value d (CHR 0x22 # v @ CHR 0x22 # r) = Some (JStr v, r)"
  by (simp add: parse_json.simps(1) skip_ws_head scan_plain)

lemma parse_client_text:
  assumes "list_all plain_char action" and "list_all plain_char channel"
  shows "parse_frame (client_text action channel) = Some \<lparr>cf_Action = action, cf_Channel = channel\<rparr>"
proof -
  have pl: "list_all plain_char ''action''" "list_all plain_char ''channel''"
    by (simp_all add: plain_char_def between_def)
  let ?r = "quoted ''channel'' @ CHR '':'' # quoted channel @ CHR ''}'' # []"
  have "parse_json Members 1 ?r = Some (JObj [(''channel'', JStr channel)], [])"
    by (rule members_last [OF _ pl(2), of _ "quoted channel"]) (simp_all add: quoted_def skip_ws_head parse_text assms(2))
  from members_more [OF _ pl(1) _ this, of "quoted ''action'' @ CHR '':'' # quoted action @ CHR '','' # ?r" "quoted action"]
  have "parse_json Members 1 (quoted ''action'' @ CHR '':'' # quoted action @ CHR '','' # ?r) =
      Some (JObj [(''action'', JStr action), (''channel'', JStr channel)], [])"
    by (simp add: quoted_def skip_ws_head parse_text assms(1))
  then have "json_document (client_text action channel) =
      Some (JObj [(''action'', JStr action), (''channel'', JStr channel)])"
    by (simp add: json_document_def client_text_def quoted_def parse_json.simps(1) skip_ws_head maxNestingDepth_def)
  moreover have "foldName ''action'' = ''ACTION''" "foldName ''channel'' = ''CHANNEL''"
    by (simp_all add: foldName.simps upper_char_def between_def) code_simp+
  ultimately show ?thesis by (simp add: parse_frame_def Unmarshal_def frame_field_def is_field_def)
qed

lemma client_text_posts:
  assumes "list_all plain_char ch" and "a \<in> {''subscribe'', ''unsubscribe''}"
  shows "frame_events n cn (client_text a ch) =
    (if a = ''subscribe'' then [PostSubscribe \<lparr>sub_client = n, sub_channel = ch\<rparr>]
     else [PostUnsubscribe \<lparr>sub_client = n, sub_channel = ch\<rparr>])"
proof -
  have "list_all plain_char a" using assms(2) by (auto simp: plain_char_def between_def)
  then show ?thesis using assms(2) by (auto simp: frame_events_def parse_client_text [OF _ assms(1)])
qed

text \<open>
  C20: while its connection is open, what the client has sent on it is a list of subscribe and
  unsubscribe frames that, done in order, amount to exactly the page's set of channels, so after a
  reconnect too nothing is missing and nothing is left over; and for a channel with a plain name the
  gateway's read pump makes of each frame the one request it stands for.
\<close>

theorem page_channels_asked:
  assumes "js_reaches url chans c" and "ws_state c = OPEN"
  shows "\<exists>fs. frames (last (socks c)) = map (\<lambda>(a, ch). client_text a ch) fs \<and> asked fs = set (js_channels c) \<and>
    (\<forall>(a, ch) \<in> set fs. list_all plain_char ch \<longrightarrow> frame_events n cn (client_text a ch) =
       (if a = ''subscribe'' then [PostSubscribe \<lparr>sub_client = n, sub_channel = ch\<rparr>]
        else [PostUnsubscribe \<lparr>sub_client = n, sub_channel = ch\<rparr>]))"
proof -
  have "speaks (frames (last (socks c))) (set (js_channels c))"
    using js_reaches_inv [OF assms(1)] assms(2) by (simp add: js_inv_def in_step_def)
  then obtain fs where fs: "frames (last (socks c)) = map (\<lambda>(a, ch). client_text a ch) fs" "asked fs = set (js_channels c)"
    "fst ` set fs \<subseteq> {''subscribe'', ''unsubscribe''}"
    by (auto simp: speaks_def)
  have "frame_events n cn (client_text a ch) =
      (if a = ''subscribe'' then [PostSubscribe \<lparr>sub_client = n, sub_channel = ch\<rparr>]
       else [PostUnsubscribe \<lparr>sub_client = n, sub_channel = ch\<rparr>])"
    if "(a, ch) \<in> set fs" "list_all plain_char ch" for a ch
    using fs(3) that by (intro client_text_posts) force+
  then have "\<forall>(a, ch) \<in> set fs. list_all plain_char ch \<longrightarrow> frame_events n cn (client_text a ch) =
      (if a = ''subscribe'' then [PostSubscribe \<lparr>sub_client = n, sub_channel = ch\<rparr>]
       else [PostUnsubscribe \<lparr>sub_client = n, sub_channel = ch\<rparr>])"
    by blast
  with fs(1,2) show ?thesis by blast
qed

definition sample_open :: "nat WSClient" where
  "sample_open = fst (js_handle (SockOpen 0) (js_new ''wss://a.example/ws/'' [''news'']))"

lemma sample_open_reached: "js_reaches ''wss://a.example/ws/'' [''news''] sample_open"
  unfolding sample_open_def
  by (rule js_reaches_event) (simp_all add: js_reaches_def js_new_def js_connect_def)

lemma sample_open_simps: "socks sample_open = [\<lparr>sk_url = ''wss://a.example/ws/'', ready = OPEN, frames = [client_text ''subscribe'' ''news'']\<rparr>]"
    "js_channels sample_open = [''news'']" "timers sample_open = []" "shouldReconnect sample_open" "backoff sample_open = 1000"
    "maxBackoff sample_open = 30000" "js_url sample_open = ''wss://a.example/ws/''" "js_handlers sample_open = Map.empty" "page sample_open = []"
  by (simp_all add: sample_open_def js_new_def js_connect_def upd_sock_def onopen_def Let_def ws_send_def ws_state_def
      this_ws_def set_add_def)

theorem one_connection_witness: "card {i. i < length (socks sample_open) \<and> ready (socks sample_open ! i) \<noteq> CLOSED} \<le> 1"
  using one_connection [OF sample_open_reached] by (simp add: sample_open_simps)

theorem page_channels_asked_witness:
  "\<exists>fs. frames (last (socks sample_open)) = map (\<lambda>(a, ch). client_text a ch) fs \<and> asked fs = {''news''}"
proof -
  have "ws_state sample_open = OPEN" by (simp add: sample_open_simps ws_state_def)
  from page_channels_asked [OF sample_open_reached this] obtain fs where
    "frames (last (socks sample_open)) = map (\<lambda>(a, ch). client_text a ch) fs" "asked fs = set (js_channels sample_open)"
    by blast
  then show ?thesis by (intro exI [of _ fs]) (simp add: sample_open_simps)
qed

section \<open>A revoked session\<close>

definition gone :: "'h WSClient \<Rightarrow> bool" where
  "gone c \<longleftrightarrow> socks c \<noteq> [] \<and> timers c = [] \<and> (\<forall>s \<in> set (socks c). ready s = CLOSED)"

lemma gone_step:
  assumes "js_step c c'" and g: "gone c"
  shows "gone c' \<and> socks c' = socks c"
proof -
  obtain e where e: "enabled e c" "c' = fst (js_handle e c)" using assms(1) by (auto simp: js_step_def)
  have "last (socks c) \<in> set (socks c)" using g by (simp add: gone_def)
  then have ws: "ws_state c = CLOSED" using g by (simp add: gone_def ws_state_def)
  show ?thesis
  proof (cases e)
    case (CallSubscribe ch)
    then show ?thesis using e(2) g ws by (simp add: js_subscribe_def Let_def ws_state_def gone_def)
  next
    case (CallUnsubscribe ch)
    then show ?thesis using e(2) g ws by (simp add: js_unsubscribe_def Let_def ws_state_def gone_def)
  next
    case CallClose
    then show ?thesis using e(2) g ws by (simp add: js_close_def ws_close_def ws_state_def gone_def)
  qed (use e g in \<open>auto simp: gone_def js_on_def\<close>)
qed

lemma gone_run: "js_step^** c c' \<Longrightarrow> gone c \<Longrightarrow> gone c' \<and> socks c' = socks c"
  by (induction rule: rtranclp_induct) (auto dest: gone_step)

text \<open>
  C22: once the connection is closed with the code by which the gateway ends revoked sessions, the client
  never connects again and sends nothing any more, whatever the page calls: its sockets stay as they
  are, all closed, and no attempt is pending.
\<close>

theorem revoked_page_stays_away:
  assumes "js_reaches url chans c" and "enabled (SockClosed i CloseSessionRevoked r) c"
    and "js_step^** (fst (js_handle (SockClosed i CloseSessionRevoked r) c)) c'"
  shows "socks c' = (socks c)[i := (socks c ! i)\<lparr>ready := CLOSED\<rparr>] \<and> timers c' = [] \<and>
    (\<forall>s \<in> set (socks c'). ready s = CLOSED)"
proof -
  have inv: "socks_ok c" using js_reaches_inv [OF assms(1)] by (simp add: js_inv_def)
  let ?c = "upd_sock i (\<lambda>s. s\<lparr>ready := CLOSED\<rparr>) c"
  let ?d = "fst (js_handle (SockClosed i CloseSessionRevoked r) c)"
  have "i = this_ws c" "timers c = []" using inv assms(2) by (auto simp: socks_ok_def)
  then have "ready (socks ?c ! j) = CLOSED" if "j < length (socks ?c)" for j
    using inv that by (auto simp: socks_ok_def nth_upd_sock)
  moreover have d: "socks ?d = socks ?c" "timers ?d = timers ?c" by (simp_all add: onclose_def CloseSessionRevoked_def)
  ultimately have "gone ?d" using inv \<open>timers c = []\<close> by (auto simp: gone_def socks_ok_def in_set_conv_nth)
  from gone_run [OF assms(3) this] d(1) show ?thesis by (simp add: gone_def upd_sock_def)
qed

theorem revoked_page_stays_away_witness:
  "timers (fst (js_handle (SockClosed 0 4401 0) sample_open)) = [] \<and>
   socks (fst (js_handle (SockClosed 0 4401 0) sample_open)) \<noteq> []"
  using revoked_page_stays_away [OF sample_open_reached, of 0 0, OF _ rtranclp.rtrancl_refl]
  by (simp add: sample_open_simps CloseSessionRevoked_def)

section \<open>From Django's publish to the page's handler\<close>



section \<open>Closing while an attempt is pending\<close>

text \<open>
  \<open>close\<close> does not cancel a timeout that is already running: after a lost connection the page closes
  the client, and the client connects all the same.
\<close>

lemma js_close_reconnect:
  "\<not> shouldReconnect (js_close c)" "shouldReconnect (js_connect c) = shouldReconnect c"
  by (simp_all add: js_close_def ws_close_def js_connect_def)

lemma js_handle_open:
  fixes c :: "'h WSClient"
  assumes "js_reaches url chans c" and "socks c = [s, s']" and "ready s' = CONNECTING" and "\<not> shouldReconnect c"
  shows "\<exists>c' :: 'h WSClient. js_reaches url chans c' \<and> \<not> shouldReconnect c' \<and> ws_state c' = OPEN \<and> length (socks c') = 2"
proof -
  let ?d = "(upd_sock 1 (\<lambda>s. s\<lparr>ready := OPEN\<rparr>) c)\<lparr>backoff := 1000\<rparr>"
  have "socks ?d \<noteq> []" "ws_state ?d = OPEN" by (simp_all add: upd_sock_def assms(2) ws_state_def)
  from send_all_open [OF this, of "js_channels c"]
  have h: "fst (js_handle (SockOpen 1) c) = upd_sock (this_ws ?d)
      (\<lambda>s. s\<lparr>frames := frames s @ map (client_text ''subscribe'') (js_channels c)\<rparr>) ?d"
    by (simp add: onopen_def Let_def)
  have "js_reaches url chans (fst (js_handle (SockOpen 1) c))" by (rule js_reaches_event [OF assms(1)]) (simp add: assms(2,3))
  moreover have "ws_state (fst (js_handle (SockOpen 1) c)) = OPEN" "length (socks (fst (js_handle (SockOpen 1) c))) = 2"
    "\<not> shouldReconnect (fst (js_handle (SockOpen 1) c))"
    unfolding h using assms(2,4) by (simp_all add: upd_sock_def this_ws_def ws_state_def)
  ultimately show ?thesis by blast
qed

theorem close_leaves_timer:
  "\<exists>c :: nat WSClient. js_reaches url chans c \<and> \<not> shouldReconnect c \<and> ws_state c = OPEN \<and> length (socks c) = 2"
proof -
  let ?c0 = "js_new url chans :: nat WSClient"
  let ?c1 = "fst (js_handle (SockClosed 0 1006 0) ?c0)"
  let ?c2 = "fst (js_handle CallClose ?c1)"
  let ?c3 = "fst (js_handle (TimerFires 0) ?c2)"
  have c3: "socks ?c3 = [\<lparr>sk_url = url, ready = CLOSED, frames = []\<rparr>, \<lparr>sk_url = url, ready = CONNECTING, frames = []\<rparr>]"
    by (simp add: js_new_def js_connect_def upd_sock_def onclose_def js_close_def ws_close_def ws_state_def Let_def)
  have s3: "\<not> shouldReconnect ?c3" by (simp add: js_close_reconnect)
  have "js_reaches url chans ?c1" by (rule js_reaches_event) (simp_all add: js_reaches_def js_new_def js_connect_def)
  then have "js_reaches url chans ?c2" by (rule js_reaches_event) simp
  then have "js_reaches url chans ?c3"
    by (rule js_reaches_event)
       (simp add: js_new_def js_connect_def upd_sock_def onclose_def js_close_def ws_close_def ws_state_def Let_def)
  from js_handle_open [OF this c3 _ s3] show ?thesis by simp
qed

end
