(* ===== verification/Spec2Isabelle.thy ===== *)
theory Spec2Isabelle
  imports GatewayProps ProcessProps ProcessRedis ProcessConns Service DjangoView BrowserProps
begin

text \<open>
  A model of the WebSocket gateway of \<open>django-websocket-gateway\<close>, the Go program under
  \<open>src/gateway\<close>, and the theorems that make it correct.

  \<^bold>\<open>The program.\<close> A Django application publishes messages on Redis channels; the gateway holds the
  browsers' WebSocket connections and hands each message to the clients subscribed to its channel.
  When a browser connects, \<open>wsHandler\<close> (\<open>main.go\<close>) checks its Origin header, asks Django about its
  session (\<open>auth.go\<close>) and, if Django knows it, makes a \<open>Client\<close> with the channels Django allows it
  and starts its two pumps (\<open>client.go\<close>). The pumps talk to the hub (\<open>hub.go\<close>) through buffered
  channels only; the hub is one goroutine that owns all tables. The Redis subscriber
  (\<open>redis.go\<close>) keeps one SUBSCRIBE per channel alive and feeds the hub. Two control channels per
  client, \<open>_session:<key>\<close> and \<open>_user:<id>:revoke\<close>, let Django end connections on logout.
  \<open>config.go\<close> reads the environment, \<open>health.go\<close> answers the load balancer's probe. At the two ends stand
  the Django app (\<open>src/websocket_gateway\<close>), whose view \<open>ws_auth\<close> answers the question about a session, and
  the browser's client \<open>client.js\<close>, which connects, subscribes and reconnects for a page.

  \<^bold>\<open>Theories.\<close> In the order in which they build on each other:

  \<^item> \<open>Prelude\<close>: Go strings as byte lists, panics and errors as the left side of a sum, buffered
    channels with their non-blocking send, receive and close, map ranges in any order, log
    records, and the locales \<open>invariant_system\<close> and \<open>simulation\<close> of transition systems.
  \<^item> \<open>GoText\<close>, \<open>GoTime\<close>, \<open>GoJson\<close>, \<open>Sha256\<close>: the parts of Go's standard library the program uses,
    written out from their documentation: \<open>strconv\<close>, \<open>strings\<close>, UTF-8 repair, \<open>time.ParseDuration\<close>,
    \<open>encoding/json\<close> (scanner, decoder into structs with case-folded names, encoder), \<open>crypto/sha256\<close>.
    The JSON parser recurses on the length of the rest of the input; nesting is limited to 10000 as
    in Go.
  \<^item> \<open>Config\<close> (\<open>config.go\<close>): \<open>Load\<close> over a function for the environment.
  \<^item> \<open>Manager\<close> (the interface \<open>channelManager\<close> of \<open>hub.go\<close>): its two operations as a record, and its
    contract as a locale. \<open>RedisSub\<close> (\<open>redis.go\<close>): the subscriber, whose state keeps the history of
    the commands sent to Redis; \<open>rsub\<close> interprets the contract on it.
  \<^item> \<open>Hub\<close> (\<open>hub.go\<close>): the hub's record, one definition per handler, the \<open>select\<close> loop as
    \<open>run_step\<close>. Pointers are numbers into \<open>heap\<close>. \<open>HubFacts\<close>: its invariant, one lemma per
    handler and one for the loop. \<open>HubProps\<close>: the properties of the handlers, and the refinement of
    the loop to a broker of subscriptions. \<open>HubRedis\<close>: the hub over any manager that keeps the
    contract. \<open>HubWork\<close>: progress and termination of the loop.
  \<^item> \<open>Django\<close> (\<open>publish.py\<close>, \<open>revocation.py\<close>, \<open>views.py\<close>): the documents Django hands the gateway, for
    plain ASCII text.
  \<^item> \<open>Pumps\<close> (\<open>client.go\<close>): \<open>newPumpClient\<close>, connection ids, \<open>ReadPump\<close> as a function of what the
    connection's reads return, \<open>WritePump\<close> of the \<open>select\<close> cases it takes.
  \<^item> \<open>Auth\<close> (\<open>auth.go\<close>): \<open>Validate\<close> over a function for the HTTP round trip; the locale
    \<open>session_validator\<close> is what the upgrade handler relies on, \<open>django\<close> its interpretation.
    \<open>DjangoView\<close> (\<open>_config.py\<close>, \<open>auth_decorator.py\<close>, \<open>views.py\<close>): the view on the other side of
    that round trip, with its decorator and settings, and the two put together.
  \<^item> \<open>Health\<close> (\<open>health.go\<close>): the probe. \<open>Mux\<close> (\<open>main.go\<close>): the two routes of \<open>http.ServeMux\<close>, with its
    cleaning of paths and its redirects.
  \<^item> \<open>Gateway\<close> (\<open>main.go\<close>): start-up, \<open>wsHandler\<close>, and all goroutines as one step relation \<open>gw_step\<close>
    in which pumps, hub, peers, Redis and the scheduler interleave freely. \<open>GatewayFacts\<close>: its
    invariant. \<open>GatewayRun\<close>: reachable states and concrete runs. \<open>GatewayOrder\<close>: order of
    delivery over runs. \<open>GatewayRevoke\<close>: disconnect signals over runs. \<open>GatewayAuth\<close>: which
    handshake let each client in. \<open>GatewayBounds\<close>: the queues. \<open>GatewayDeliver\<close>: progress of
    delivery. \<open>GatewayLogs\<close>: what the hub logs. \<open>GatewayWire\<close>: what is done on each connection, and
    connection ids. \<open>GatewayProps\<close>: the upgrade handler and start-up.
  \<^item> \<open>Process\<close> (\<open>main.go\<close>, \<open>health.go\<close>): \<open>main\<close> itself around \<open>gw_step\<close>: the server, probes, refused
    upgrades, the signal, the phases of the shutdown, the close of the subscriber, and the read loop of
    \<open>redis.go\<close> with the messages in flight; its invariant joins those of the goroutines.
    \<open>ProcessProps\<close>: the properties of every state the process can reach, shutdown included.
    \<open>ProcessRedis\<close>: the way of a message from Redis to the hub. \<open>ProcessConns\<close>: the connections.
    \<open>Service\<close>: the abstract service of attached clients and subscriptions that the process refines.
  \<^item> \<open>Browser\<close> (\<open>client.js\<close>): \<open>WSClient\<close> as a state machine over the page's calls, the events of the
    browser's sockets and its timeouts, with its invariant. \<open>BrowserProps\<close>: its properties, and how
    its frames and messages fit the gateway.

  \<^bold>\<open>Interfaces.\<close> \<open>channel_manager\<close> is proved to carry \<open>redis_sync\<close>, the relation between the hub's
  channels and those the manager holds, through every handler; \<open>RedisSub.rsub\<close> gives it for the
  Redis subscriber as the hub uses it (no channel counted twice, not closed). \<open>session_validator\<close>
  gives what an upgrade tells about the session. \<open>invariant_system\<close> is interpreted on the hub's
  loop (\<open>hub_loop\<close>), on the gateway (\<open>gw\<close>, \<open>redis_gw\<close>, \<open>ordered\<close>,
  \<open>authenticated\<close>), on the process (\<open>proc\<close>) and on the browser's client (\<open>page\<close>); \<open>simulation\<close>, which extends it by an abstract
  system, on the process and the abstract service (\<open>served\<close>).

  \<^bold>\<open>What the theorems show.\<close> In every state the process can reach, whatever the interleaving: nothing is written
  to a client but error frames and messages published on channels Django allowed it, in the order of
  publication; the hub's tables are exact, its caps kept and all queues within their capacity; Redis
  delivers the hub's channels until the subscriber is closed; and no step panics as long as the ping
  interval is positive. The hub is handed exactly what Redis sends, in order, and Redis is asked only for
  channels of clients the process let in. On each connection the pumps keep to a fixed protocol: one
  unregister request, at most one close frame and nothing after it. What waits for a client can always still be written to it. The loop serves
  every request in finitely many turns and refines an abstract broker; every run of the process is a
  run of the abstract service around that broker. The messages Django's logout and force-logout publish
  signal 4401 to the clients of the session or the user, and the signal stays until the connection's
  write pump ends. The upgrade handler lets in only sessions Django authenticated, and \<open>Validate\<close>
  accepts, rejects and logs exactly as described. The subscriber implements a bag of references.
  \<open>Load\<close> returns only well-formed configurations and tells nothing of the secret. A request gets to
  a handler by a clean path only; the probe's answers are the outcomes of its PINGs; every log record
  has a known form, with no trace of a session but a fingerprint or the name of a channel. The
  shutdown turns every probe to 503, closes Redis once and ends. Gateway and Django together accept
  exactly the sessions of active users, under a shared secret. The browser's client keeps one
  connection, asks on it for exactly the page's channels, hands a published payload to its handler and
  stays away once its session is revoked. The theorem at the end of this theory puts
  the parts together, from Django's answer to the frames a browser receives.

  \<^bold>\<open>Bounds.\<close> No fuel is used: the parsers and loops recurse on their input. Capacities of channels,
  the body limit of 64 KiB, the nesting limit and all integers of fixed width are those of the code;
  64-bit arithmetic is written with \<open>64 word\<close> (\<open>counter\<close>, \<open>lifetime_wait\<close>) or with range checks
  over \<open>int\<close>. The constants of SHA-256 are computed from primes as its standard defines them.

  \<^bold>\<open>What is abstracted.\<close> Code that is not in the repository is a parameter: the environment, the
  outcome of each Redis command (\<open>redis_net\<close>) and of the URL parser, the HTTP round trip to Django,
  \<open>websocket.Accept\<close>, what the connection's \<open>Read\<close>, \<open>Write\<close> and \<open>Ping\<close> return, the clock, and when the
  HTTP server and the signal act; of Django the session store, the user model, \<open>import_string\<close> and the
  error page; of the browser the order of its events. Redis sends, at any time, on channels it was
  asked for; a message that the Redis library drops because its queue is full counts as never sent.
  A handler's step is atomic, as the hub is one goroutine and the
  subscriber's methods hold its mutex. Context cancellation is a choice of the environment at each
  look at the context. Log records are kept as values; their text format is not modelled.

  \<^bold>\<open>Not modelled.\<close> The connections of the HTTP server and what its timeouts do; redirects inside \<open>http.Client\<close>;
  the text handler of \<open>slog\<close>; non-ASCII text on the Python side of the Django documents and in the
  browser's frames; the app's cached Redis client and the wiring of its signal, which are calls of
  libraries; the launcher and the downloader, which start processes and fetch files.

  \<^bold>\<open>What the model showed.\<close> \<open>unsubscribed_control_evades\<close>: a client may unsubscribe from its own control
  channels and is then out of reach of revocations. \<open>ghost_client_reachable\<close>: an unregister request
  may overtake the registration, which leaves a client registered for good whose connection is gone.
  \<open>failed_subscribe_not_retried\<close>: a failed SUBSCRIBE is not tried again while the channel has
  clients. \<open>malformed_control_logs_key\<close>: a malformed control message puts a session key into the log.
  \<open>zero_ping_interval_panics\<close>: a ping interval of zero is accepted and ends the process at the first
  connection. \<open>subscription_lost_reachable\<close>: a subscribe request may overtake the registration too and is
  then dropped without a word. \<open>non_ascii_secret_raises\<close>: a secret header that is not ASCII is answered
  with a 500. \<open>close_leaves_timer\<close>: a browser client closed between two attempts connects all the same.
\<close>

section \<open>From Django to the browser\<close>

text \<open>
  C1: end to end: in every reachable state, every frame written to a connection is an error
  frame of the hub or the payload, unchanged, of a message published on a channel with a valid,
  unreserved name that is in the list of channels with which Django answered for the session of
  the request that opened the connection; and that answer said the session is authenticated.
\<close>

theorem frames_authorised_by_django:
  assumes "proc_reaches env parseURL net cfg p" and "c < g_next (p_gw p)" and "f \<in> set (written (wire (p_gw p) c))"
  shows "\<exists>r resp body answer. handshake (p_gw p) c = Some (r, resp) \<and>
    rq_sessionid r = Some (sessionKey (heap (p_hub p) c)) \<and>
    read_limited resp = Inr body \<and> parse_auth body = Some answer \<and> Authenticated answer \<and>
    (is_error_frame f \<or>
     (\<exists>m \<in> set (published (p_gw p)). f = Payload m \<and> valid_channel (Channel m) \<and>
        Channel m \<in> set (slice_elems (resp_AllowedChannels answer))))"
proof -
  note inv = proc_reaches_run_time [OF assms(1), unfolded run_time_inv_def]
  obtain xs es where x: "stream_of (p_gw p) c \<in> shuffles xs es"
    and sub: "subseq xs (map Payload (filter (granted (heap (p_hub p) c)) (published (p_gw p))))"
    and e: "\<forall>e \<in> set es. is_error_frame e"
    using stream_in_order [OF _ assms(2)] inv by blast
  have "f \<in> set xs \<union> set es" using assms(3) set_shuffles [OF x] by (auto simp: stream_of_def)
  then have f: "is_error_frame f \<or> (\<exists>m \<in> set (published (p_gw p)). f = Payload m \<and> granted (heap (p_hub p) c) m)"
    using list_emb_set [OF sub, of f] e by auto
  have "admitted cfg (p_gw p) c" using inv assms(2) by (simp add: auth_inv_def)
  with f show ?thesis by (fastforce simp: admitted_def lets_in_def granted_def)
qed

theorem frames_authorised_by_django_witness:
  "\<exists>p r resp. demo_proc p \<and> ''hi'' \<in> set (written (wire (p_gw p) 0)) \<and> handshake (p_gw p) 0 = Some (r, resp) \<and>
     rq_sessionid r = Some (sessionKey (heap (p_hub p) 0))"
proof -
  obtain p where p: "demo_proc p" "g_next (p_gw p) = 1" "''hi'' \<in> set (written (wire (p_gw p) 0))"
    using demo_written by blast
  with frames_authorised_by_django [OF p(1), of 0 "''hi''"] show ?thesis by auto
qed

end
